theory Spec2Isabelle
  imports Complex_Main "HOL-Library.AList"
begin

section \<open>Text helpers\<close>

text \<open>
  Python strings are modelled as \<open>string\<close>. The model covers ASCII text: the character
  tests, \<open>lower\<close>, \<open>upper\<close> and \<open>strip\<close> below act on the ASCII letters, digits and
  white space exactly as \<open>str.isalpha\<close>, \<open>str.isdigit\<close>, \<open>str.lower\<close>, \<open>str.upper\<close> and
  \<open>str.strip\<close> do there, and leave every other character alone.
\<close>

definition is_upper :: "char \<Rightarrow> bool" where
  "is_upper c \<longleftrightarrow> 65 \<le> (of_char c :: nat) \<and> (of_char c :: nat) \<le> 90"

definition is_lower :: "char \<Rightarrow> bool" where
  "is_lower c \<longleftrightarrow> 97 \<le> (of_char c :: nat) \<and> (of_char c :: nat) \<le> 122"

definition isalpha :: "char \<Rightarrow> bool" where
  "isalpha c \<longleftrightarrow> is_upper c \<or> is_lower c"

definition isdigit :: "char \<Rightarrow> bool" where
  "isdigit c \<longleftrightarrow> 48 \<le> (of_char c :: nat) \<and> (of_char c :: nat) \<le> 57"

definition isspace :: "char \<Rightarrow> bool" where
  "isspace c \<longleftrightarrow> (of_char c :: nat) \<in> {9, 10, 11, 12, 13, 28, 29, 30, 31, 32}"

definition lower_char :: "char \<Rightarrow> char" where
  "lower_char c = (if is_upper c then char_of ((of_char c :: nat) + 32) else c)"

definition upper_char :: "char \<Rightarrow> char" where
  "upper_char c = (if is_lower c then char_of ((of_char c :: nat) - 32) else c)"

definition lower :: "string \<Rightarrow> string" where
  "lower s = map lower_char s"

definition upper :: "string \<Rightarrow> string" where
  "upper s = map upper_char s"

definition strip :: "string \<Rightarrow> string" where
  "strip s = rev (dropWhile isspace (rev (dropWhile isspace s)))"

text \<open>\<open>str(n)\<close> and \<open>int(digits)\<close> for a natural number in decimal.\<close>

definition digit_char :: "nat \<Rightarrow> char" where
  "digit_char d = char_of (48 + d)"

function str_nat :: "nat \<Rightarrow> string" where
  "str_nat n = (if n < 10 then [digit_char n] else str_nat (n div 10) @ [digit_char (n mod 10)])"
  by pat_completeness auto
termination
  by (relation "measure (\<lambda>n. n)") auto

declare str_nat.simps [simp del]

definition int_of_digits :: "string \<Rightarrow> nat" where
  "int_of_digits ds = foldl (\<lambda>acc ch. acc * 10 + ((of_char ch :: nat) - 48)) 0 ds"

section \<open>Cell references (google\_client.py)\<close>

text \<open>
  \<open>_column_letter\<close>: the \<open>while current > 0\<close> loop, with \<open>divmod(current - 1, 26)\<close>, and
  the final \<open>result or "A"\<close>.
\<close>

function column_letter_loop :: "nat \<Rightarrow> string \<Rightarrow> string" where
  "column_letter_loop current result =
     (if current > 0
      then column_letter_loop ((current - 1) div 26)
             (char_of (65 + (current - 1) mod 26) # result)
      else result)"
  by pat_completeness auto
termination
  by (relation "measure (\<lambda>(current, result). current)") auto

declare column_letter_loop.simps [simp del]

definition column_letter :: "nat \<Rightarrow> string" where
  "column_letter index =
     (let result = column_letter_loop index [] in if result = [] then ''A'' else result)"

text \<open>
  \<open>_cell_to_indexes\<close>: the character loop collects letters and digits and gives up on a
  letter after a digit or on any other character.
\<close>

fun split_cell :: "string \<Rightarrow> string \<Rightarrow> string \<Rightarrow> (string \<times> string) option" where
  "split_cell [] letters digits = Some (letters, digits)"
| "split_cell (c # cs) letters digits =
     (if isalpha c then
        (if digits \<noteq> [] then None else split_cell cs (letters @ [c]) digits)
      else if isdigit c then split_cell cs letters (digits @ [c])
      else None)"

definition col_index_of :: "string \<Rightarrow> nat" where
  "col_index_of letters = foldl (\<lambda>col ch. col * 26 + ((of_char ch :: nat) - 64)) 0 letters"

definition cell_to_indexes :: "string \<Rightarrow> (nat \<times> nat) option" where
  "cell_to_indexes cell =
     (if cell = [] then None
      else case split_cell (upper (strip cell)) [] [] of
          None \<Rightarrow> None
        | Some (letters, digits) \<Rightarrow>
            if letters = [] \<or> digits = [] then None
            else let col_index = col_index_of letters;
                     row_index = int_of_digits digits
                 in if row_index \<le> 0 then None
                    else Some (row_index - 1, col_index - 1))"

text \<open>\<open>_normalize_name\<close> and \<open>_letters_only\<close>: \<open>re.sub\<close> deletes every character outside the class.\<close>

definition normalize_name :: "string \<Rightarrow> string" where
  "normalize_name text = filter (\<lambda>c. is_lower c \<or> isdigit c) (lower text)"

definition letters_only :: "string \<Rightarrow> string" where
  "letters_only text = filter is_lower (lower text)"

section \<open>The spreadsheet service and the client (google\_client.py)\<close>

text \<open>
  A cell of a value grid is text or a number (the code tests \<open>isinstance(cell, str)\<close>).
  Scores are Python floats; they are modelled as real numbers, so NaN, the infinities and
  rounding are outside the model.
\<close>

datatype cell = Str string | Num real

type_synonym grid = "cell list list"

datatype error =
    ListSheetsFailed       \<comment> \<open>GoogleClientError: Failed to list sheets\<close>
  | ReadWorksheetFailed    \<comment> \<open>GoogleClientError: Failed to read worksheet\<close>
  | ScenarioNotLocated     \<comment> \<open>GoogleClientError: Could not locate scenario\<close>
  | UpdateFailed           \<comment> \<open>the exception of a failed \<open>values().update\<close> request\<close>
  | UnboundLocalError      \<comment> \<open>a local variable read before any assignment\<close>
  | StatsFileUnreadable    \<comment> \<open>StatsParseError: file not found or not readable\<close>
  | NoScenarioEntry        \<comment> \<open>StatsParseError: No 'Scenario:' entry found\<close>
  | NoScoreEntry           \<comment> \<open>StatsParseError: No 'Score:' entry found\<close>
  | ScoreNotFloat          \<comment> \<open>StatsParseError: Could not parse score value\<close>
  | ReadFailed             \<comment> \<open>UnicodeDecodeError or csv.Error while a stats file is read\<close>
  | StateNotObject         \<comment> \<open>AttributeError: the state file does not hold an object\<close>

definition is_GoogleClientError :: "error \<Rightarrow> bool" where
  "is_GoogleClientError e \<longleftrightarrow> e \<in> {ListSheetsFailed, ReadWorksheetFailed, ScenarioNotLocated}"

definition is_StatsParseError :: "error \<Rightarrow> bool" where
  "is_StatsParseError e \<longleftrightarrow>
     e \<in> {StatsFileUnreadable, NoScenarioEntry, NoScoreEntry, ScoreNotFloat}"

text \<open>
  The remote service behind \<open>self.service\<close>: spreadsheets by id, each an ordered list of
  titled worksheets, together with the log of the requests it has received. A request for
  an unknown spreadsheet or worksheet fails. An update request names its cell by a range
  \<open>'Title'!A1\<close>; the service stores the number there, extending the grid with empty rows
  and empty text cells where needed.
\<close>

datatype call = ListSheets string | GetValues string string | UpdateCell string string real

record service =
  spreadsheets :: "(string \<times> (string \<times> grid) list) list"
  requests :: "call list"

definition remote_list :: "service \<Rightarrow> string \<Rightarrow> string list option" where
  "remote_list sv sid = map_option (map fst) (map_of (spreadsheets sv) sid)"

definition remote_get :: "service \<Rightarrow> string \<Rightarrow> string \<Rightarrow> grid option" where
  "remote_get sv sid title =
     (case map_of (spreadsheets sv) sid of None \<Rightarrow> None | Some sheets \<Rightarrow> map_of sheets title)"

definition range_ref :: "string \<Rightarrow> string \<Rightarrow> string" where
  "range_ref ws cell_ref = [CHR 0x27] @ ws @ [CHR 0x27, CHR ''!''] @ cell_ref"

definition parse_range :: "string \<Rightarrow> (string \<times> nat \<times> nat) option" where
  "parse_range r =
     (let back = rev r;
          cell_ref = rev (takeWhile (\<lambda>c. c \<noteq> CHR ''!'') back);
          quoted = rev (drop 1 (dropWhile (\<lambda>c. c \<noteq> CHR ''!'') back))
      in if 2 \<le> length quoted \<and> hd quoted = CHR 0x27 \<and> last quoted = CHR 0x27
         then map_option (\<lambda>rc. (butlast (tl quoted), rc)) (cell_to_indexes cell_ref)
         else None)"

definition set_cell :: "grid \<Rightarrow> nat \<Rightarrow> nat \<Rightarrow> cell \<Rightarrow> grid" where
  "set_cell g r c v =
     (let g1 = g @ replicate (Suc r - length g) [];
          row = g1 ! r;
          row1 = row @ replicate (Suc c - length row) (Str [])
      in g1[r := row1[c := v]])"

definition remote_update :: "service \<Rightarrow> string \<Rightarrow> string \<Rightarrow> real \<Rightarrow> service option" where
  "remote_update sv sid rng v =
     (case parse_range rng of
        None \<Rightarrow> None
      | Some (title, r, c) \<Rightarrow>
          (case map_of (spreadsheets sv) sid of
             None \<Rightarrow> None
           | Some sheets \<Rightarrow>
               (case map_of sheets title of
                  None \<Rightarrow> None
                | Some g \<Rightarrow>
                    Some (sv\<lparr>spreadsheets :=
                      AList.update sid (AList.update title (set_cell g r c (Num v)) sheets)
                        (spreadsheets sv)\<rparr>))))"

text \<open>\<open>GoogleSheetsClient\<close>: the service handle and the two caches, which nothing clears.\<close>

record client =
  service :: service
  sheet_cache :: "string \<times> string \<rightharpoonup> grid"
  sheet_list_cache :: "string \<rightharpoonup> string list"

definition log_request :: "call \<Rightarrow> client \<Rightarrow> client" where
  "log_request rq c = c\<lparr>service := (service c)\<lparr>requests := requests (service c) @ [rq]\<rparr>\<rparr>"

text \<open>\<open>build_google_client\<close> returns \<open>GoogleSheetsClient(service=service)\<close>: both caches empty.\<close>

definition build_google_client :: "service \<Rightarrow> client" where
  "build_google_client sv = \<lparr>service = sv, sheet_cache = Map.empty, sheet_list_cache = Map.empty\<rparr>"

definition get_sheet_values :: "client \<Rightarrow> string \<Rightarrow> string \<Rightarrow> client \<times> (error + grid)" where
  "get_sheet_values c sid ws =
     (case sheet_cache c (sid, ws) of
        Some vals \<Rightarrow> (c, Inr vals)
      | None \<Rightarrow>
          (let c1 = log_request (GetValues sid ws) c
           in case remote_get (service c) sid ws of
                None \<Rightarrow> (c1, Inl ReadWorksheetFailed)
              | Some vals \<Rightarrow> (c1\<lparr>sheet_cache := (sheet_cache c1)((sid, ws) \<mapsto> vals)\<rparr>, Inr vals)))"

definition update_cell :: "client \<Rightarrow> string \<Rightarrow> string \<Rightarrow> real \<Rightarrow> client \<times> (error + unit)" where
  "update_cell c sid cell_ref v =
     (let c1 = log_request (UpdateCell sid cell_ref v) c
      in case remote_update (service c1) sid cell_ref v of
           None \<Rightarrow> (c1, Inl UpdateFailed)
         | Some sv \<Rightarrow> (c1\<lparr>service := sv\<rparr>, Inr ()))"

text \<open>Tests on one cell: \<open>isinstance(v, str) and v.strip().lower() == key\<close>, and \<open>... in headers\<close>.\<close>

definition cell_text_is :: "cell \<Rightarrow> string \<Rightarrow> bool" where
  "cell_text_is v key = (case v of Str s \<Rightarrow> lower (strip s) = key | Num x \<Rightarrow> False)"

definition cell_text_in :: "cell \<Rightarrow> string list \<Rightarrow> bool" where
  "cell_text_in v keys = (case v of Str s \<Rightarrow> lower (strip s) \<in> set keys | Num x \<Rightarrow> False)"

text \<open>\<open>_find_progress_column\<close>: the first "progress" cell of the first 200 rows, row by row.\<close>

fun find_progress_rows :: "grid \<Rightarrow> nat option" where
  "find_progress_rows [] = None"
| "find_progress_rows (row # rows) =
     (case find (\<lambda>(idx, v). cell_text_is v ''progress'') (enumerate 1 row) of
        Some (idx, v) \<Rightarrow> Some idx
      | None \<Rightarrow> find_progress_rows rows)"

definition find_progress_column :: "grid \<Rightarrow> nat option" where
  "find_progress_column sheet_values = find_progress_rows (take 200 sheet_values)"

definition find_score_columns :: "grid \<Rightarrow> string list \<Rightarrow> nat list" where
  "find_score_columns sheet_values header_candidates =
     foldl (\<lambda>columns row.
        foldl (\<lambda>columns (idx, v).
           if cell_text_in v header_candidates \<and> idx \<notin> set columns
           then columns @ [idx] else columns) columns (enumerate 1 row))
       [] (take 200 sheet_values)"

definition select_score_column :: "nat \<Rightarrow> nat list \<Rightarrow> nat option \<Rightarrow> nat" where
  "select_score_column scenario_col score_columns progress_col =
     (if score_columns \<noteq> [] then hd score_columns
      else case progress_col of
             Some p \<Rightarrow> if p > 1 then p - 1 else max 1 (scenario_col + 3)
           | None \<Rightarrow> max 1 (scenario_col + 3))"

definition scenario_cell_matches :: "grid \<Rightarrow> string \<Rightarrow> string \<Rightarrow> bool" where
  "scenario_cell_matches sheet_values scenario_ref scenario_key =
     (case cell_to_indexes scenario_ref of
        None \<Rightarrow> False
      | Some (row_idx, col_idx) \<Rightarrow>
          if row_idx \<ge> length sheet_values then False
          else let row = sheet_values ! row_idx
               in if col_idx \<ge> length row then False
                  else cell_text_is (row ! col_idx) scenario_key)"

text \<open>
  \<open>_score_cell_matches\<close>: the loop returns True at the first row that passes one of the two
  tests and False after the last row, so it is an existence test over the rows.
\<close>

definition score_row_matches :: "nat \<Rightarrow> nat option \<Rightarrow> string list \<Rightarrow> cell list \<Rightarrow> bool" where
  "score_row_matches col_idx progress_col header_candidates row =
     (col_idx < length row \<and>
      (cell_text_in (row ! col_idx) header_candidates \<or>
       (case progress_col of
          None \<Rightarrow> False
        | Some p \<Rightarrow>
            (let progress_zero = p - 1
             in col_idx = progress_zero + 1 \<and> progress_zero < length row \<and>
                cell_text_is (row ! progress_zero) ''progress''))))"

definition score_cell_matches :: "grid \<Rightarrow> string \<Rightarrow> string list \<Rightarrow> bool" where
  "score_cell_matches sheet_values score_ref header_candidates =
     (case cell_to_indexes score_ref of
        None \<Rightarrow> False
      | Some (row_idx, col_idx) \<Rightarrow>
          (let progress_col = find_progress_column sheet_values;
               limit = min (length sheet_values) 200
           in list_ex (score_row_matches col_idx progress_col header_candidates)
                (take limit sheet_values)))"

subsection \<open>resolve\_target\_cell\<close>

definition truthy :: "string option \<Rightarrow> bool" where
  "truthy s = (case s of None \<Rightarrow> False | Some t \<Rightarrow> t \<noteq> [])"

definition normalize_headers :: "string list \<Rightarrow> string list" where
  "normalize_headers header_candidates =
     (let headers = map (\<lambda>item. lower (strip item))
                      (filter (\<lambda>item. strip item \<noteq> []) header_candidates)
      in if headers = [] then [''your score''] else headers)"

text \<open>
  The body of the two nested \<open>for\<close> loops for one cell. Its first \<open>if\<close> (the cell is text
  and \<open>cell.strip().lower() == scenario_key\<close>) assigns \<open>scenario_cell\<close>, \<open>score_col_idx\<close>
  and \<open>score_cell\<close> and then falls through: the block has no \<open>return\<close>, and the second
  \<open>if\<close> assigns the same three locals again before their only use. So the value the loop
  computes is the running \<open>best_fallback\<close> (title, score cell, scenario cell, diff).
\<close>

type_synonym fallback = "string \<times> string \<times> string \<times> nat"

definition scan_cell ::
  "string \<Rightarrow> string \<Rightarrow> string \<Rightarrow> nat list \<Rightarrow> nat option \<Rightarrow> nat \<Rightarrow>
   fallback option \<Rightarrow> nat \<times> cell \<Rightarrow> fallback option" where
  "scan_cell title scenario_norm scenario_letters score_columns progress_col row_idx
     best_fallback ic =
     (case snd ic of
        Num x \<Rightarrow> best_fallback
      | Str s \<Rightarrow>
          (let col_idx = fst ic;
               cell_norm = normalize_name s;
               cell_letters = letters_only s
           in if cell_norm = scenario_norm \<or> cell_letters = scenario_letters then
                (let scenario_ref = column_letter col_idx @ str_nat row_idx;
                     score_col_idx = select_score_column col_idx score_columns progress_col;
                     score_ref = column_letter score_col_idx @ str_nat row_idx;
                     diff = nat \<bar>int (length cell_norm) - int (length scenario_norm)\<bar>
                 in case best_fallback of
                      None \<Rightarrow> Some (title, score_ref, scenario_ref, diff)
                    | Some (t, sc, lc, d) \<Rightarrow>
                        if diff < d then Some (title, score_ref, scenario_ref, diff)
                        else best_fallback)
              else best_fallback))"

definition scan_grid ::
  "string \<Rightarrow> string \<Rightarrow> string \<Rightarrow> nat list \<Rightarrow> nat option \<Rightarrow> grid \<Rightarrow>
   fallback option \<Rightarrow> fallback option" where
  "scan_grid title scenario_norm scenario_letters score_columns progress_col vals best_fallback =
     foldl (\<lambda>bf (row_idx, row).
        foldl (scan_cell title scenario_norm scenario_letters score_columns progress_col row_idx)
          bf (enumerate 1 row))
       best_fallback (enumerate 1 vals)"

text \<open>The loop over the worksheet titles; \<open>allowed\<close> is \<open>allowed_titles\<close> (None or a set).\<close>

fun scan_sheets ::
  "client \<Rightarrow> string \<Rightarrow> string \<Rightarrow> string \<Rightarrow> string list \<Rightarrow> string list option \<Rightarrow>
   string list \<Rightarrow> fallback option \<Rightarrow> client \<times> (error + fallback option)" where
  "scan_sheets c sid scenario_norm scenario_letters headers allowed [] best_fallback =
     (c, Inr best_fallback)"
| "scan_sheets c sid scenario_norm scenario_letters headers allowed (title # titles) best_fallback =
     (if (case allowed of None \<Rightarrow> False | Some a \<Rightarrow> a \<noteq> [] \<and> title \<notin> set a) then
        scan_sheets c sid scenario_norm scenario_letters headers allowed titles best_fallback
      else
        (case get_sheet_values c sid title of
           (c1, Inl e) \<Rightarrow> (c1, Inl e)
         | (c1, Inr vals) \<Rightarrow>
             if vals = [] then
               scan_sheets c1 sid scenario_norm scenario_letters headers allowed titles
                 best_fallback
             else
               (let progress_col = find_progress_column vals;
                    score_columns = find_score_columns vals headers
                in scan_sheets c1 sid scenario_norm scenario_letters headers allowed titles
                     (scan_grid title scenario_norm scenario_letters score_columns progress_col
                        vals best_fallback))))"

definition list_sheet_titles :: "client \<Rightarrow> string \<Rightarrow> client \<times> (error + string list)" where
  "list_sheet_titles c sid =
     (case sheet_list_cache c sid of
        Some titles \<Rightarrow> (c, Inr titles)
      | None \<Rightarrow>
          (let c1 = log_request (ListSheets sid) c
           in case remote_list (service c) sid of
                None \<Rightarrow> (c1, Inl ListSheetsFailed)
              | Some titles \<Rightarrow>
                  (c1\<lparr>sheet_list_cache := (sheet_list_cache c1)(sid \<mapsto> titles)\<rparr>, Inr titles)))"

text \<open>Lines 57 to 126: the search over the listed worksheets.\<close>

definition search_sheets ::
  "client \<Rightarrow> string \<Rightarrow> string \<Rightarrow> string list \<Rightarrow> string list option \<Rightarrow>
   client \<times> (error + string \<times> string \<times> string)" where
  "search_sheets c sid scenario_name headers worksheet_filter =
     (case list_sheet_titles c sid of
        (c1, Inl e) \<Rightarrow> (c1, Inl e)
      | (c1, Inr sheet_titles) \<Rightarrow>
          (let allowed = (case worksheet_filter of
                            None \<Rightarrow> None
                          | Some f \<Rightarrow> if f = [] then None else Some (map strip f))
           in case scan_sheets c1 sid (normalize_name scenario_name) (letters_only scenario_name)
                     headers allowed sheet_titles None of
                (c2, Inl e) \<Rightarrow> (c2, Inl e)
              | (c2, Inr None) \<Rightarrow> (c2, Inl ScenarioNotLocated)
              | (c2, Inr (Some (t, sc, lc, d))) \<Rightarrow> (c2, Inr (t, sc, lc))))"

definition resolve_target_cell ::
  "client \<Rightarrow> string \<Rightarrow> string \<Rightarrow> string list \<Rightarrow> string list option \<Rightarrow>
   string option \<Rightarrow> string option \<Rightarrow> string option \<Rightarrow>
   client \<times> (error + string \<times> string \<times> string)" where
  "resolve_target_cell c sid scenario_name header_candidates worksheet_filter
     cached_sheet cached_score_cell cached_scenario_cell =
     (let scenario_key = lower (strip scenario_name);
          headers = normalize_headers header_candidates
      in if truthy cached_sheet \<and> truthy cached_score_cell \<and> truthy cached_scenario_cell then
           (case get_sheet_values c sid (the cached_sheet) of
              (c1, Inl e) \<Rightarrow> (c1, Inl e)
            | (c1, Inr cached_values) \<Rightarrow>
                if scenario_cell_matches cached_values (the cached_scenario_cell) scenario_key \<and>
                   score_cell_matches cached_values (the cached_score_cell) headers
                then (c1, Inr (the cached_sheet, the cached_score_cell, the cached_scenario_cell))
                else search_sheets c1 sid scenario_name headers worksheet_filter)
         else search_sheets c sid scenario_name headers worksheet_filter)"

subsection \<open>find\_mirror\_cells and get\_numeric\_cell\<close>

definition header_set_of :: "string list \<Rightarrow> string list" where
  "header_set_of header_candidates =
     map (\<lambda>item. lower (strip item)) (filter (\<lambda>item. item \<noteq> []) header_candidates)
       @ [''high score'']"

definition cell_blank :: "cell \<Rightarrow> bool" where
  "cell_blank v = (case v of Num x \<Rightarrow> True | Str s \<Rightarrow> strip s = [])"

text \<open>
  The loop over \<open>values[:20]\<close>: at the first row that has a header at the score column it
  looks at the two cells to the right and then leaves the loop (\<open>break\<close>), whether or not
  it recorded a mirror column.
\<close>

fun mirror_header_scan :: "grid \<Rightarrow> nat \<Rightarrow> string list \<Rightarrow> nat list" where
  "mirror_header_scan [] score_col header_set = []"
| "mirror_header_scan (header_row # rest) score_col header_set =
     (if length header_row \<ge> score_col \<and>
         cell_text_in (header_row ! (score_col - 1)) header_set
      then
        (let neighbour = (if length header_row > score_col
                          then header_row ! score_col else Str []);
             progress_candidate = (if length header_row > score_col + 1
                                   then header_row ! (score_col + 1) else Str [])
         in if cell_blank neighbour \<and> cell_text_is progress_candidate ''progress''
            then [score_col + 1] else [])
      else mirror_header_scan rest score_col header_set)"

text \<open>
  The part of \<open>find_mirror_cells\<close> after the grid is fetched. \<open>row\<close> is assigned only under
  \<open>if row_idx < len(values)\<close>, and the next statement reads \<open>len(row)\<close> in every case.
\<close>

definition mirror_scan :: "grid \<Rightarrow> string \<Rightarrow> string list \<Rightarrow> error + string list" where
  "mirror_scan vals score_ref header_candidates =
     (case cell_to_indexes score_ref of
        None \<Rightarrow> Inr []
      | Some (row_idx, col_idx) \<Rightarrow>
          (let score_col = col_idx + 1;
               mirrors = mirror_header_scan (take 20 vals) score_col
                           (header_set_of header_candidates)
           in if row_idx < length vals then
                (let row = vals ! row_idx;
                     mirror_col = score_col + 1;
                     mirrors1 =
                       (if length row > col_idx + 1 \<and> row ! col_idx = row ! (col_idx + 1)
                        then (if mirror_col \<in> set mirrors then mirrors
                              else mirrors @ [mirror_col])
                        else mirrors)
                 in Inr (map (\<lambda>col. column_letter col @ str_nat (row_idx + 1)) mirrors1))
              else Inl UnboundLocalError))"

definition find_mirror_cells ::
  "client \<Rightarrow> string \<Rightarrow> string \<Rightarrow> string \<Rightarrow> string list \<Rightarrow> client \<times> (error + string list)" where
  "find_mirror_cells c sid ws score_ref header_candidates =
     (case get_sheet_values c sid ws of
        (c1, Inl e) \<Rightarrow> (c1, Inl e)
      | (c1, Inr vals) \<Rightarrow> (c1, mirror_scan vals score_ref header_candidates))"

text \<open>
  \<open>get_numeric_cell\<close>. \<open>py_float\<close> stands for Python's \<open>float\<close> on a string (None where it
  raises ValueError); it is a parameter of the model.
\<close>

definition get_numeric_cell ::
  "(string \<Rightarrow> real option) \<Rightarrow> client \<Rightarrow> string \<Rightarrow> string \<Rightarrow> string \<Rightarrow>
   client \<times> (error + real option)" where
  "get_numeric_cell py_float c sid ws cell_ref =
     (case get_sheet_values c sid ws of
        (c1, Inl e) \<Rightarrow> (c1, Inl e)
      | (c1, Inr vals) \<Rightarrow>
          (c1, Inr
            (case cell_to_indexes cell_ref of
               None \<Rightarrow> None
             | Some (row_idx, col_idx) \<Rightarrow>
                 if row_idx \<ge> length vals then None
                 else let row = vals ! row_idx
                      in if col_idx \<ge> length row then None
                         else (case row ! col_idx of
                                 Num x \<Rightarrow> Some x
                               | Str s \<Rightarrow>
                                   (let cleaned = strip (filter (\<lambda>ch. ch \<noteq> CHR '','') s)
                                    in if cleaned = [] then None else py_float cleaned)))))"

section \<open>Result files (stats.py)\<close>

record ScenarioRun =
  scenario :: string
  score :: real
  source_file :: string

text \<open>
  What reading a stats file gives. Opening it may fail (FileNotFoundError or another
  OSError). Once it is open, \<open>csv.reader\<close> yields rows until the file ends or the read
  fails, with an OSError or with an error that is not an OSError (UnicodeDecodeError from
  the decoder, \<open>csv.Error\<close> from the reader).
\<close>

datatype read_end = EndOfFile | ReadOSError | ReadOtherError

datatype stats_content = OpenFailed | Opened "string list list" read_end

text \<open>
  The loop of \<open>parse_stats_file\<close> carries \<open>scenario\<close> and \<open>score\<close>; \<open>_try_float\<close> raises at
  once on a value that is not a number, and the loop stops as soon as both are known, so
  that it never meets what lies behind that row. The \<open>except\<close> clauses turn an OSError
  into a StatsParseError and let any other error of the read pass.
\<close>

fun parse_rows ::
  "(string \<Rightarrow> real option) \<Rightarrow> string \<Rightarrow> string list list \<Rightarrow> read_end \<Rightarrow>
   string option \<Rightarrow> real option \<Rightarrow> error + (string option \<times> real option)" where
  "parse_rows py_float score_field [] fin scen sc =
     (case fin of
        EndOfFile \<Rightarrow> Inr (scen, sc)
      | ReadOSError \<Rightarrow> Inl StatsFileUnreadable
      | ReadOtherError \<Rightarrow> Inl ReadFailed)"
| "parse_rows py_float score_field (row # rows) fin scen sc =
     (if row = [] then parse_rows py_float score_field rows fin scen sc
      else
        (let key = strip (hd row)
         in if key = [] then parse_rows py_float score_field rows fin scen sc
            else
              (let scen1 = (if key = ''Scenario:'' \<and> length row > 1
                            then Some (strip (row ! 1)) else scen)
               in case (if key = score_field @ '':'' \<and> length row > 1
                        then (case py_float (row ! 1) of
                                None \<Rightarrow> Inl ScoreNotFloat
                              | Some v \<Rightarrow> Inr (Some v))
                        else Inr sc) of
                    Inl e \<Rightarrow> Inl e
                  | Inr sc1 \<Rightarrow>
                      if truthy scen1 \<and> sc1 \<noteq> None then Inr (scen1, sc1)
                      else parse_rows py_float score_field rows fin scen1 sc1)))"

definition parse_stats_file ::
  "(string \<Rightarrow> real option) \<Rightarrow> string \<Rightarrow> stats_content \<Rightarrow> error + ScenarioRun" where
  "parse_stats_file py_float path content =
     (case content of
        OpenFailed \<Rightarrow> Inl StatsFileUnreadable
      | Opened rows fin \<Rightarrow>
          (case parse_rows py_float ''Score'' rows fin None None of
             Inl e \<Rightarrow> Inl e
           | Inr (scen, sc) \<Rightarrow>
               if \<not> truthy scen then Inl NoScenarioEntry
               else if sc = None then Inl NoScoreEntry
               else Inr \<lparr>scenario = the scen, score = the sc, source_file = path\<rparr>))"

section \<open>Persisted state (state.py)\<close>

text \<open>The value \<open>json.load\<close> returns; an object is a dict, kept as an association list.\<close>

datatype json =
    JNull
  | JBool bool
  | JNum real
  | JStr string
  | JArr "json list"
  | JObj "(string \<times> json) list"

record ScenarioState =
  best_score :: "real option"
  worksheet :: "string option"
  score_cell :: "string option"
  scenario_cell :: "string option"

record AppState =
  scenarios :: "(string \<times> ScenarioState) list"
  processed_files :: "string list"

definition new_ScenarioState :: ScenarioState where
  "new_ScenarioState =
     \<lparr>best_score = None, worksheet = None, score_cell = None, scenario_cell = None\<rparr>"

definition scenario_entry :: "AppState \<Rightarrow> string \<Rightarrow> AppState \<times> ScenarioState" where
  "scenario_entry st name =
     (case map_of (scenarios st) name of
        Some entry \<Rightarrow> (st, entry)
      | None \<Rightarrow>
          (st\<lparr>scenarios := AList.update name new_ScenarioState (scenarios st)\<rparr>,
           new_ScenarioState))"

text \<open>\<open>xs[-500:]\<close>\<close>

definition last500 :: "'a list \<Rightarrow> 'a list" where
  "last500 xs = drop (length xs - 500) xs"

text \<open>
  \<open>d.get(k)\<close> on a loaded object: None for a missing key and for a JSON null. \<open>py_repr\<close>
  stands for Python's \<open>str\<close> on a loaded value that is not a string; like \<open>py_float\<close> it
  is a parameter of the model.
\<close>

definition dict_get :: "(string \<times> json) list \<Rightarrow> string \<Rightarrow> json option" where
  "dict_get kvs k = (case map_of kvs k of Some JNull \<Rightarrow> None | r \<Rightarrow> r)"

definition py_str :: "(json \<Rightarrow> string) \<Rightarrow> json \<Rightarrow> string" where
  "py_str py_repr v = (case v of JStr s \<Rightarrow> s | _ \<Rightarrow> py_repr v)"

definition optional_str :: "(json \<Rightarrow> string) \<Rightarrow> json option \<Rightarrow> string option" where
  "optional_str py_repr v =
     (case v of
        None \<Rightarrow> None
      | Some j \<Rightarrow> (let text = strip (py_str py_repr j) in if text = [] then None else Some text))"

definition to_optional_float :: "(string \<Rightarrow> real option) \<Rightarrow> json option \<Rightarrow> real option" where
  "to_optional_float py_float v =
     (case v of
        None \<Rightarrow> None
      | Some (JNum x) \<Rightarrow> Some x
      | Some (JBool b) \<Rightarrow> Some (if b then 1 else 0)
      | Some (JStr s) \<Rightarrow> py_float s
      | Some _ \<Rightarrow> None)"

definition load_entry ::
  "(string \<Rightarrow> real option) \<Rightarrow> (json \<Rightarrow> string) \<Rightarrow> (string \<times> json) list \<Rightarrow> ScenarioState" where
  "load_entry py_float py_repr data =
     \<lparr>best_score = to_optional_float py_float (dict_get data ''best_score''),
      worksheet = optional_str py_repr (dict_get data ''worksheet''),
      score_cell = optional_str py_repr (dict_get data ''score_cell''),
      scenario_cell = optional_str py_repr (dict_get data ''scenario_cell'')\<rparr>"

definition load_scenarios ::
  "(string \<Rightarrow> real option) \<Rightarrow> (json \<Rightarrow> string) \<Rightarrow> (string \<times> json) list \<Rightarrow>
   (string \<times> ScenarioState) list" where
  "load_scenarios py_float py_repr kvs =
     foldl (\<lambda>acc (name, data).
        case data of
          JObj d \<Rightarrow> AList.update name (load_entry py_float py_repr d) acc
        | _ \<Rightarrow> acc) [] kvs"

text \<open>The legacy layout: \<open>processed_files\<close> lists kept under the scenario entries.\<close>

definition legacy_processed :: "(json \<Rightarrow> string) \<Rightarrow> (string \<times> json) list \<Rightarrow> string list" where
  "legacy_processed py_repr kvs =
     concat (map (\<lambda>(name, entry).
        case entry of
          JObj d \<Rightarrow> (case dict_get d ''processed_files'' of
                      Some (JArr files) \<Rightarrow> map (py_str py_repr) files
                    | _ \<Rightarrow> [])
        | _ \<Rightarrow> []) kvs)"

text \<open>\<open>load_state\<close>; the argument is the content of the state file, None if there is no file.\<close>

definition load_state ::
  "(string \<Rightarrow> real option) \<Rightarrow> (json \<Rightarrow> string) \<Rightarrow> json option \<Rightarrow> error + AppState" where
  "load_state py_float py_repr file =
     (case file of
        None \<Rightarrow> Inr \<lparr>scenarios = [], processed_files = []\<rparr>
      | Some (JObj raw) \<Rightarrow>
          (let listed = (case dict_get raw ''processed_files'' of
                           Some (JArr xs) \<Rightarrow> map (py_str py_repr) xs
                         | _ \<Rightarrow> []);
               scenarios_raw = (case map_of raw ''scenarios'' of
                                  None \<Rightarrow> JObj []
                                | Some v \<Rightarrow> v)
           in case scenarios_raw of
                JObj kvs \<Rightarrow>
                  (let collected = legacy_processed py_repr kvs
                   in Inr \<lparr>scenarios = load_scenarios py_float py_repr kvs,
                           processed_files =
                             (if listed = [] \<and> collected \<noteq> [] then last500 collected
                              else listed)\<rparr>)
              | _ \<Rightarrow> Inr \<lparr>scenarios = [], processed_files = listed\<rparr>)
      | Some _ \<Rightarrow> Inl StateNotObject)"

definition entry_json :: "ScenarioState \<Rightarrow> json" where
  "entry_json entry =
     JObj [(''best_score'', case best_score entry of None \<Rightarrow> JNull | Some b \<Rightarrow> JNum b),
           (''worksheet'', case worksheet entry of None \<Rightarrow> JNull | Some t \<Rightarrow> JStr t),
           (''score_cell'', case score_cell entry of None \<Rightarrow> JNull | Some t \<Rightarrow> JStr t),
           (''scenario_cell'', case scenario_cell entry of None \<Rightarrow> JNull | Some t \<Rightarrow> JStr t)]"

text \<open>\<open>save_state\<close>: the payload written to the state file.\<close>

definition save_state :: "AppState \<Rightarrow> json" where
  "save_state st =
     JObj [(''processed_files'', JArr (map JStr (last500 (processed_files st)))),
           (''scenarios'', JObj (map (\<lambda>(name, entry). (name, entry_json entry)) (scenarios st)))]"

section \<open>The synchronisation driver (uploader.py)\<close>

record AppConfig =
  sheet_id :: string
  score_header_candidates :: "string list"
  worksheet_filter :: "string list option"

text \<open>
  The files a pass reads and writes: the state file (None if absent) and the stats files
  under \<open>stats_root\<close>, already in the order of \<open>sorted(..., key=st_mtime)\<close>, each with its
  path and what reading it gives.
\<close>

record files =
  state_file :: "json option"
  stats_files :: "(string \<times> stats_content) list"

text \<open>\<open>math.isclose(a, b, rel_tol=1e-6, abs_tol=1e-6)\<close> on finite numbers.\<close>

definition isclose :: "real \<Rightarrow> real \<Rightarrow> bool" where
  "isclose a b \<longleftrightarrow> \<bar>a - b\<bar> \<le> max (max \<bar>a\<bar> \<bar>b\<bar> / 1000000) (1 / 1000000)"

text \<open>
  \<open>_collect_runs\<close>: its loop over the files, on \<open>processed_set\<close>, \<open>processed_paths\<close> and
  \<open>runs\<close>. The \<open>except\<close> clause catches a StatsParseError and goes on to the next file;
  any other error of \<open>parse_stats_file\<close> leaves \<open>_collect_runs\<close>.
\<close>

fun collect_loop ::
  "(string \<Rightarrow> real option) \<Rightarrow> bool \<Rightarrow> (string \<times> stats_content) list \<Rightarrow>
   string set \<Rightarrow> string list \<Rightarrow> ScenarioRun list \<Rightarrow> error + ScenarioRun list \<times> string list" where
  "collect_loop py_float skip_processed [] processed_set processed_paths runs =
     Inr (runs, processed_paths)"
| "collect_loop py_float skip_processed (f # fs) processed_set processed_paths runs =
     (let path_str = fst f
      in if skip_processed \<and> path_str \<in> processed_set then
           collect_loop py_float skip_processed fs processed_set processed_paths runs
         else
           (let processed_paths1 = (if path_str \<notin> processed_set
                                    then processed_paths @ [path_str] else processed_paths);
                processed_set1 = (if path_str \<notin> processed_set
                                  then insert path_str processed_set else processed_set)
            in case parse_stats_file py_float path_str (snd f) of
                 Inr run \<Rightarrow>
                   collect_loop py_float skip_processed fs processed_set1 processed_paths1
                     (runs @ [run])
               | Inl e \<Rightarrow>
                   if is_StatsParseError e then
                     collect_loop py_float skip_processed fs processed_set1 processed_paths1 runs
                   else Inl e))"

definition collect_runs ::
  "(string \<Rightarrow> real option) \<Rightarrow> (string \<times> stats_content) list \<Rightarrow> string list \<Rightarrow> bool \<Rightarrow>
   error + ScenarioRun list \<times> string list" where
  "collect_runs py_float stats processed skip_processed =
     collect_loop py_float skip_processed stats (set processed) processed []"

text \<open>The writes to the mirror cells, in order; a failed request ends the pass.\<close>

fun update_mirrors ::
  "client \<Rightarrow> string \<Rightarrow> string \<Rightarrow> string list \<Rightarrow> real \<Rightarrow> client \<times> (error + unit)" where
  "update_mirrors c sid ws [] v = (c, Inr ())"
| "update_mirrors c sid ws (extra_cell # cells) v =
     (case update_cell c sid (range_ref ws extra_cell) v of
        (c1, Inl e) \<Rightarrow> (c1, Inl e)
      | (c1, Inr u) \<Rightarrow> update_mirrors c1 sid ws cells v)"

text \<open>
  The body of the \<open>for run in new_runs\<close> loop of \<open>process_once\<close>, on the client, the state
  and the flag \<open>updated\<close>. \<open>Inl\<close> is an exception that leaves \<open>process_once\<close>; a
  GoogleClientError from \<open>resolve_target_cell\<close> is caught and the loop continues. The
  score is a number, so \<open>target_value\<close> is never None and that \<open>continue\<close> is never taken.
\<close>

definition process_run ::
  "(string \<Rightarrow> real option) \<Rightarrow> AppConfig \<Rightarrow> ScenarioRun \<Rightarrow> client \<Rightarrow> AppState \<Rightarrow> bool \<Rightarrow>
   client \<times> (error + AppState \<times> bool)" where
  "process_run py_float config run c st updated =
     (case scenario_entry st (scenario run) of (st1, scenario_state) \<Rightarrow>
      (case resolve_target_cell c (sheet_id config) (scenario run)
              (score_header_candidates config) (worksheet_filter config)
              (worksheet scenario_state) (score_cell scenario_state)
              (scenario_cell scenario_state) of
         (c1, Inl e) \<Rightarrow>
           if is_GoogleClientError e then (c1, Inr (st1, updated)) else (c1, Inl e)
       | (c1, Inr (ws, score_ref, scenario_ref)) \<Rightarrow>
           (let current_best = best_score scenario_state;
                is_new_personal_best =
                  (case current_best of None \<Rightarrow> True | Some b \<Rightarrow> score run > b);
                target_value = (if is_new_personal_best then score run else the current_best);
                scenario_state1 =
                  \<lparr>best_score = (if is_new_personal_best then Some (score run)
                                  else current_best),
                   worksheet = Some ws, score_cell = Some score_ref,
                   scenario_cell = Some scenario_ref\<rparr>;
                st2 = st1\<lparr>scenarios :=
                        AList.update (scenario run) scenario_state1 (scenarios st1)\<rparr>
            in case get_numeric_cell py_float c1 (sheet_id config) ws score_ref of
                 (c2, Inl e) \<Rightarrow> (c2, Inl e)
               | (c2, Inr sheet_value) \<Rightarrow>
                   if (case sheet_value of None \<Rightarrow> False | Some x \<Rightarrow> isclose x target_value)
                      \<and> \<not> is_new_personal_best
                   then (c2, Inr (st2, updated))
                   else
                     (case find_mirror_cells c2 (sheet_id config) ws score_ref
                             (score_header_candidates config) of
                        (c3, Inl e) \<Rightarrow> (c3, Inl e)
                      | (c3, Inr mirror_cells) \<Rightarrow>
                          (case update_cell c3 (sheet_id config) (range_ref ws score_ref)
                                  target_value of
                             (c4, Inl e) \<Rightarrow> (c4, Inl e)
                           | (c4, Inr u) \<Rightarrow>
                               (case update_mirrors c4 (sheet_id config) ws mirror_cells
                                       target_value of
                                  (c5, Inl e) \<Rightarrow> (c5, Inl e)
                                | (c5, Inr u1) \<Rightarrow> (c5, Inr (st2, True))))))))"

fun process_runs ::
  "(string \<Rightarrow> real option) \<Rightarrow> AppConfig \<Rightarrow> ScenarioRun list \<Rightarrow> client \<Rightarrow> AppState \<Rightarrow> bool \<Rightarrow>
   client \<times> (error + AppState \<times> bool)" where
  "process_runs py_float config [] c st updated = (c, Inr (st, updated))"
| "process_runs py_float config (run # runs) c st updated =
     (case process_run py_float config run c st updated of
        (c1, Inl e) \<Rightarrow> (c1, Inl e)
      | (c1, Inr (st1, updated1)) \<Rightarrow> process_runs py_float config runs c1 st1 updated1)"

text \<open>
  \<open>process_once\<close>: the files and the client after the pass, and the returned flag or the
  exception. An exception leaves the state file as it was.
\<close>

definition process_once ::
  "(string \<Rightarrow> real option) \<Rightarrow> (json \<Rightarrow> string) \<Rightarrow> files \<Rightarrow> AppConfig \<Rightarrow> client \<Rightarrow> bool \<Rightarrow>
   files \<times> client \<times> (error + bool)" where
  "process_once py_float py_repr fs config c skip_processed =
     (case load_state py_float py_repr (state_file fs) of
        Inl e \<Rightarrow> (fs, c, Inl e)
      | Inr st \<Rightarrow>
          (case collect_runs py_float (stats_files fs) (processed_files st) skip_processed of
             Inl e \<Rightarrow> (fs, c, Inl e)
           | Inr (new_runs, processed_paths) \<Rightarrow>
               if new_runs = [] then
                 (fs\<lparr>state_file :=
                       Some (save_state (st\<lparr>processed_files := last500 processed_paths\<rparr>))\<rparr>,
                  c, Inr False)
               else
                 (case process_runs py_float config new_runs c st False of
                    (c1, Inl e) \<Rightarrow> (fs, c1, Inl e)
                  | (c1, Inr (st1, updated)) \<Rightarrow>
                      (fs\<lparr>state_file :=
                            Some (save_state (st1\<lparr>processed_files := last500 processed_paths\<rparr>))\<rparr>,
                       c1, Inr updated))))"

section \<open>Inputs used in the examples\<close>

text \<open>\<open>DEFAULT_SCORE_HEADERS\<close> of config.py, and a configuration that uses it.\<close>

definition DEFAULT_SCORE_HEADERS :: "string list" where
  "DEFAULT_SCORE_HEADERS = [''High Score'', ''Your Score'', ''Score'', ''PB'']"

definition ex_config :: AppConfig where
  "ex_config =
     \<lparr>sheet_id = ''S'', score_header_candidates = DEFAULT_SCORE_HEADERS,
      worksheet_filter = None\<rparr>"

text \<open>
  Stand-ins for the two parameters in the examples: \<open>float\<close> on unsigned decimal integers
  (all the examples need), and a \<open>str\<close> that is never consulted.
\<close>

definition ex_py_float :: "string \<Rightarrow> real option" where
  "ex_py_float s =
     (if s \<noteq> [] \<and> list_all isdigit s then Some (real (int_of_digits s)) else None)"

definition ex_py_repr :: "json \<Rightarrow> string" where
  "ex_py_repr j = ''?''"

text \<open>
  A spreadsheet in which "Close Range" occurs once (Sheet1!A2); the cell above it holds
  "close-range", which only the normalised comparison accepts.
\<close>

definition ex_exact_service :: service where
  "ex_exact_service =
     \<lparr>spreadsheets =
        [(''S'', [(''Sheet1'', [[Str ''close-range''], [Str ''Close Range'']]),
                  (''Sheet2'', [[Str ''x'']])])],
      requests = []\<rparr>"

text \<open>
  A worksheet laid out around a "Progress" column and no score header: the search puts
  the score cell of "Close Range" at B2, left of "Progress". An older worksheet listed
  before it also names the scenario.
\<close>

definition ex_progress_grid :: grid where
  "ex_progress_grid =
     [[Str ''Scenario'', Str '''', Str ''Progress''],
      [Str ''Close Range'', Str ''5'', Str ''50%'']]"

definition ex_progress_service :: service where
  "ex_progress_service =
     \<lparr>spreadsheets =
        [(''S'', [(''Archive'', [[Str ''Close Range'']]), (''Sheet1'', ex_progress_grid)])],
      requests = []\<rparr>"

definition ex_progress_only :: service where
  "ex_progress_only =
     \<lparr>spreadsheets = [(''S'', [(''Sheet1'', ex_progress_grid)])], requests = []\<rparr>"

text \<open>A worksheet of two rows with the merged-header layout.\<close>

definition ex_mirror_service :: service where
  "ex_mirror_service =
     \<lparr>spreadsheets =
        [(''S'', [(''Sheet1'', [[Str ''Scenario'', Str ''High Score'', Str '''', Str ''Progress''],
                               [Str ''Close Range'', Str ''5'', Str ''7'']])])],
      requests = []\<rparr>"

section \<open>The layout the mirror claim describes\<close>

text \<open>
  In the words of the specification: a row has a header at the score column when its cell
  there, trimmed and lower-cased, is in the header set; the row shows the merged-header
  layout when, besides, the cell in the next column is blank or absent and the cell in
  the column after that reads "Progress".
\<close>

definition has_header_at :: "nat \<Rightarrow> string list \<Rightarrow> cell list \<Rightarrow> bool" where
  "has_header_at col_idx header_set row \<longleftrightarrow>
     col_idx < length row \<and> cell_text_in (row ! col_idx) header_set"

definition blank_or_absent :: "cell list \<Rightarrow> nat \<Rightarrow> bool" where
  "blank_or_absent row i =
     (if i < length row then (case row ! i of Str s \<Rightarrow> strip s = [] | Num x \<Rightarrow> False)
      else True)"

definition merged_header_row :: "nat \<Rightarrow> string list \<Rightarrow> cell list \<Rightarrow> bool" where
  "merged_header_row col_idx header_set row \<longleftrightarrow>
     has_header_at col_idx header_set row \<and> blank_or_absent row (col_idx + 1) \<and>
     col_idx + 2 < length row \<and> cell_text_is (row ! (col_idx + 2)) ''progress''"

text \<open>Two header rows over one data row; only the second has the merged-header layout.\<close>

definition ex_two_headers_service :: service where
  "ex_two_headers_service =
     \<lparr>spreadsheets =
        [(''S'', [(''Sheet1'', [[Str ''High Score'', Str ''Rank'', Str ''Progress''],
                               [Str ''High Score'', Str '''', Str ''Progress''],
                               [Str ''5'', Str ''6'']])])],
      requests = []\<rparr>"

section \<open>What the parse-error claim calls a malformed file\<close>






section \<open>The invariant of a scenario state, and the form of stored states\<close>

text \<open>The triple is all or nothing: a score cell comes with a worksheet and a label cell.\<close>

definition triple_invariant :: "ScenarioState \<Rightarrow> bool" where
  "triple_invariant entry =
     (if score_cell entry = None then True
      else worksheet entry \<noteq> None \<and> scenario_cell entry \<noteq> None)"

text \<open>
  The same condition on an object of the state file: a field is unset when it is missing,
  null or a blank text, and holds a text when it is a text that is not blank.
\<close>

definition field_unset :: "(string \<times> json) list \<Rightarrow> string \<Rightarrow> bool" where
  "field_unset d k =
     (case map_of d k of
        None \<Rightarrow> True
      | Some JNull \<Rightarrow> True
      | Some (JStr s) \<Rightarrow> strip s = []
      | Some _ \<Rightarrow> False)"

definition field_text :: "(string \<times> json) list \<Rightarrow> string \<Rightarrow> bool" where
  "field_text d k = (case map_of d k of Some (JStr s) \<Rightarrow> strip s \<noteq> [] | _ \<Rightarrow> False)"

definition stored_triple_ok :: "json \<Rightarrow> bool" where
  "stored_triple_ok data =
     (case data of
        JObj d \<Rightarrow>
          (if field_unset d ''score_cell'' then True
           else field_text d ''worksheet'' \<and> field_text d ''scenario_cell'')
      | _ \<Rightarrow> True)"

definition stored_scenarios :: "json option \<Rightarrow> (string \<times> json) list" where
  "stored_scenarios file =
     (case file of
        Some (JObj raw) \<Rightarrow> (case map_of raw ''scenarios'' of Some (JObj kvs) \<Rightarrow> kvs | _ \<Rightarrow> [])
      | _ \<Rightarrow> [])"

text \<open>A state file whose only scenario entry has a score cell and nothing else.\<close>

definition ex_partial_state_file :: json where
  "ex_partial_state_file =
     JObj [(''processed_files'', JArr []),
           (''scenarios'', JObj [(''Close Range'', JObj [(''score_cell'', JStr ''B2'')])])]"

section \<open>Requests of a run, prior best and target\<close>

text \<open>The update requests among a list of requests, and the requests a step has added.\<close>

definition is_write :: "call \<Rightarrow> bool" where
  "is_write rq = (case rq of UpdateCell sid rng v \<Rightarrow> True | _ \<Rightarrow> False)"

definition writes :: "call list \<Rightarrow> call list" where
  "writes rqs = filter is_write rqs"

definition written_values :: "call list \<Rightarrow> real list" where
  "written_values rqs =
     concat (map (\<lambda>rq. case rq of UpdateCell sid rng v \<Rightarrow> [v] | _ \<Rightarrow> []) rqs)"

definition new_requests :: "client \<Rightarrow> client \<Rightarrow> call list" where
  "new_requests c c' = drop (length (requests (service c))) (requests (service c'))"

text \<open>
  In the words of the specification: the prior best of a scenario, whether a run is a new
  best (no prior best, or a higher score), and the target value (the run's score if it is
  a new best, else the prior best).
\<close>

definition prior_best :: "AppState \<Rightarrow> string \<Rightarrow> real option" where
  "prior_best st name =
     (case map_of (scenarios st) name of None \<Rightarrow> None | Some entry \<Rightarrow> best_score entry)"

definition is_new_best :: "AppState \<Rightarrow> ScenarioRun \<Rightarrow> bool" where
  "is_new_best st run =
     (case prior_best st (scenario run) of None \<Rightarrow> True | Some b \<Rightarrow> score run > b)"

definition target_of :: "AppState \<Rightarrow> ScenarioRun \<Rightarrow> real" where
  "target_of st run =
     (if is_new_best st run then score run else the (prior_best st (scenario run)))"

section \<open>Three passes over the scores 120, 95 and 140\<close>

text \<open>
  A worksheet with a "High Score" column and the scenario "Close Range" in row 2, its score
  cell B2 still empty, and stats files with one scenario and one score, read to their end.
\<close>

definition ex_sheet :: service where
  "ex_sheet =
     \<lparr>spreadsheets =
        [(''S'', [(''Sheet1'', [[Str ''Scenario'', Str ''High Score''], [Str ''Close Range'']])])],
      requests = []\<rparr>"

definition ex_add_stats :: "files \<Rightarrow> string \<Rightarrow> string \<Rightarrow> files" where
  "ex_add_stats fs path sc =
     fs\<lparr>stats_files := stats_files fs @
          [(path, Opened [[''Scenario:'', ''Close Range''], [''Score:'', sc]] EndOfFile)]\<rparr>"

text \<open>
  Three passes, a new stats file before each (scores 120, 95, 140). With \<open>watch\<close> they
  run as in \<open>watch_and_process\<close>: one client for all passes, \<open>skip_processed\<close> set.
  Without it they run as three \<open>upload\<close> commands: each pass builds its client anew and
  rescans every stats file. The result is the service after the third pass and the three
  returned values.
\<close>

definition ex_three_passes :: "bool \<Rightarrow> service \<times> (error + bool) list" where
  "ex_three_passes watch =
     (let next_client = (\<lambda>c. if watch then c else build_google_client (service c));
          fs0 = ex_add_stats \<lparr>state_file = None, stats_files = []\<rparr> ''run1.csv'' ''120''
      in case process_once ex_py_float ex_py_repr fs0 ex_config
                (build_google_client ex_sheet) watch of
           (fs1, c1, r1) \<Rightarrow>
             (case process_once ex_py_float ex_py_repr (ex_add_stats fs1 ''run2.csv'' ''95'')
                     ex_config (next_client c1) watch of
                (fs2, c2, r2) \<Rightarrow>
                  (case process_once ex_py_float ex_py_repr
                          (ex_add_stats fs2 ''run3.csv'' ''140'') ex_config
                          (next_client c2) watch of
                     (fs3, c3, r3) \<Rightarrow> (service c3, [r1, r2, r3]))))"

text \<open>
  The state after the first of these passes (best score 120 at Sheet1!B2), the state file
  that holds it, and the run with the score 95.
\<close>

definition ex_state_120 :: AppState where
  "ex_state_120 =
     \<lparr>scenarios = [(''Close Range'',
          \<lparr>best_score = Some 120, worksheet = Some ''Sheet1'', score_cell = Some ''B2'',
           scenario_cell = Some ''A2''\<rparr>)],
      processed_files = [''run1.csv'']\<rparr>"

definition ex_run_95 :: ScenarioRun where
  "ex_run_95 = \<lparr>scenario = ''Close Range'', score = 95, source_file = ''run2.csv''\<rparr>"

section \<open>The form of a loaded state\<close>

text \<open>What \<open>_optional_str\<close> returns: nothing, or a text that is trimmed and not empty.\<close>

definition stored_text :: "string option \<Rightarrow> bool" where
  "stored_text t = (case t of None \<Rightarrow> True | Some s \<Rightarrow> s \<noteq> [] \<and> strip s = s)"

definition loaded_entry :: "ScenarioState \<Rightarrow> bool" where
  "loaded_entry entry \<longleftrightarrow>
     stored_text (worksheet entry) \<and> stored_text (score_cell entry) \<and>
     stored_text (scenario_cell entry)"

text \<open>A state with the whole triple: worksheet, score cell and label cell are all set.\<close>

definition triple_set :: "ScenarioState \<Rightarrow> bool" where
  "triple_set entry \<longleftrightarrow>
     worksheet entry \<noteq> None \<and> score_cell entry \<noteq> None \<and> scenario_cell entry \<noteq> None"

section \<open>A state file with more than 500 processed files\<close>

text \<open>
  A state file that lists 501 processed files, run0.csv to run500.csv, and no scenario;
  and the files of a pass that has this state file and discovers one stats file.
\<close>

definition ex_id :: "nat \<Rightarrow> string" where
  "ex_id n = ''run'' @ str_nat n @ ''.csv''"

definition ex_ids :: "string list" where
  "ex_ids = map ex_id [0..<501]"

definition ex_long_state_file :: json where
  "ex_long_state_file =
     JObj [(''processed_files'', JArr (map JStr ex_ids)), (''scenarios'', JObj [])]"

definition ex_long_files :: "string \<Rightarrow> files" where
  "ex_long_files path =
     \<lparr>state_file = Some ex_long_state_file,
      stats_files =
        [(path, Opened [[''Scenario:'', ''Close Range''], [''Score:'', ''120'']] EndOfFile)]\<rparr>"

section \<open>Cell references: letters and indexes\<close>

lemma upper_ord: "is_upper c \<Longrightarrow> 1 \<le> (of_char c :: nat) - 64 \<and> (of_char c :: nat) - 64 \<le> 26"
  unfolding is_upper_def by arith

lemma upper_back: "is_upper c \<Longrightarrow> char_of (64 + ((of_char c :: nat) - 64)) = c"
  by (simp add: is_upper_def)

lemma column_letter_loop_step:
  assumes "1 \<le> d" "d \<le> 26"
  shows "column_letter_loop (n * 26 + d) acc = column_letter_loop n (char_of (64 + d) # acc)"
proof -
  have e: "n * 26 + d - 1 = (d - 1) + n * 26" using assms by simp
  have a: "(n * 26 + d - 1) div 26 = n" using assms by simp
  have "((d - 1) + n * 26) mod 26 = (d - 1) mod 26" by simp
  then have b: "(n * 26 + d - 1) mod 26 = d - 1" unfolding e using assms by simp
  have c: "65 + (d - 1) = 64 + d" using assms by simp
  have p: "n * 26 + d > 0" using assms by simp
  show ?thesis
    by (subst column_letter_loop.simps) (simp only: a b c p if_True)
qed

lemma column_letter_loop_letters:
  "\<forall>c\<in>set L. is_upper c \<Longrightarrow> column_letter_loop (col_index_of L) acc = L @ acc"
proof (induction L arbitrary: acc rule: rev_induct)
  case Nil
  then show ?case by (simp add: col_index_of_def column_letter_loop.simps)
next
  case (snoc x xs)
  have ux: "is_upper x" using snoc.prems by simp
  have "col_index_of (xs @ [x]) = col_index_of xs * 26 + ((of_char x :: nat) - 64)"
    by (simp add: col_index_of_def)
  then have "column_letter_loop (col_index_of (xs @ [x])) acc
      = column_letter_loop (col_index_of xs) (char_of (64 + ((of_char x :: nat) - 64)) # acc)"
    using column_letter_loop_step upper_ord[OF ux] by simp
  also have "\<dots> = column_letter_loop (col_index_of xs) (x # acc)"
    using upper_back[OF ux] by simp
  also have "\<dots> = xs @ (x # acc)" using snoc by simp
  finally show ?case by simp
qed

lemma column_letter_col_index:
  "L \<noteq> [] \<Longrightarrow> \<forall>c\<in>set L. is_upper c \<Longrightarrow> column_letter (col_index_of L) = L"
  using column_letter_loop_letters[of L "[]"] by (simp add: column_letter_def)

lemma col_index_pos: "L \<noteq> [] \<Longrightarrow> \<forall>c\<in>set L. is_upper c \<Longrightarrow> 0 < col_index_of L"
proof (induction L rule: rev_induct)
  case Nil then show ?case by simp
next
  case (snoc x xs)
  then have "is_upper x" by simp
  from upper_ord[OF this] have "0 < (of_char x :: nat) - 64" by arith
  then show ?case by (simp add: col_index_of_def)
qed

lemma digit_char_isdigit: "d < 10 \<Longrightarrow> isdigit (digit_char d)"
  by (simp add: isdigit_def digit_char_def)

lemma digit_char_val: "d < 10 \<Longrightarrow> (of_char (digit_char d) :: nat) - 48 = d"
  by (simp add: digit_char_def)

lemma str_nat_digits: "\<forall>c\<in>set (str_nat n). isdigit c"
proof (induction n rule: str_nat.induct)
  case (1 n)
  show ?case
  proof (cases "n < 10")
    case True
    then show ?thesis by (subst str_nat.simps) (simp add: digit_char_isdigit)
  next
    case False
    with 1 show ?thesis by (subst str_nat.simps) (simp add: digit_char_isdigit)
  qed
qed

lemma str_nat_nonempty: "str_nat n \<noteq> []"
  by (subst str_nat.simps) simp

lemma int_of_digits_snoc:
  "int_of_digits (ds @ [c]) = int_of_digits ds * 10 + ((of_char c :: nat) - 48)"
  by (simp add: int_of_digits_def)

lemma int_of_digits_str_nat: "int_of_digits (str_nat n) = n"
proof (induction n rule: str_nat.induct)
  case (1 n)
  show ?case
  proof (cases "n < 10")
    case True
    then show ?thesis
      by (subst str_nat.simps) (simp add: int_of_digits_def digit_char_val)
  next
    case False
    with 1 have "int_of_digits (str_nat (n div 10)) = n div 10" by simp
    with False show ?thesis
      by (subst str_nat.simps) (simp add: int_of_digits_snoc digit_char_val)
  qed
qed

lemma digit_not_alpha: "isdigit c \<Longrightarrow> \<not> isalpha c"
  by (auto simp: isdigit_def isalpha_def is_upper_def is_lower_def)

lemma split_cell_digits:
  "\<forall>c\<in>set ds. isdigit c \<Longrightarrow> split_cell ds letters digits = Some (letters, digits @ ds)"
  by (induction ds arbitrary: digits) (simp_all add: digit_not_alpha)

lemma split_cell_letters:
  "\<forall>c\<in>set L. isalpha c \<Longrightarrow> split_cell (L @ rest) letters [] = split_cell rest (letters @ L) []"
  by (induction L arbitrary: letters) simp_all

lemma upper_not_space: "is_upper c \<Longrightarrow> \<not> isspace c"
  by (auto simp: is_upper_def isspace_def)

lemma digit_not_space: "isdigit c \<Longrightarrow> \<not> isspace c"
  by (auto simp: isdigit_def isspace_def)

lemma strip_id:
  assumes "s \<noteq> []" "\<not> isspace (hd s)" "\<not> isspace (last s)"
  shows "strip s = s"
proof -
  from assms have 1: "dropWhile isspace s = s" by (cases s) simp_all
  from assms have "rev s \<noteq> []" "\<not> isspace (hd (rev s))" by (simp_all add: hd_rev)
  then have 2: "dropWhile isspace (rev s) = rev s" by (cases "rev s") simp_all
  show ?thesis by (simp add: strip_def 1 2)
qed

lemma upper_id: "\<forall>c\<in>set s. \<not> is_lower c \<Longrightarrow> upper s = s"
  by (induction s) (simp_all add: upper_def upper_char_def)

lemma upper_not_lower: "is_upper c \<Longrightarrow> \<not> is_lower c"
  by (auto simp: is_upper_def is_lower_def)

lemma digit_not_lower: "isdigit c \<Longrightarrow> \<not> is_lower c"
  by (auto simp: isdigit_def is_lower_def)

lemma cell_to_indexes_ref:
  assumes "L \<noteq> []" "\<forall>c\<in>set L. is_upper c" "0 < row"
  shows "cell_to_indexes (L @ str_nat row) = Some (row - 1, col_index_of L - 1)"
proof -
  let ?s = "L @ str_nat row"
  have ne: "?s \<noteq> []" using assms by simp
  have hd: "\<not> isspace (hd ?s)" using assms by (cases L) (simp_all add: upper_not_space)
  have "last ?s = last (str_nat row)" by (simp add: str_nat_nonempty)
  moreover have "last (str_nat row) \<in> set (str_nat row)" by (simp add: str_nat_nonempty)
  ultimately have la: "\<not> isspace (last ?s)" using str_nat_digits digit_not_space by metis
  have st: "strip ?s = ?s" by (rule strip_id[OF ne hd la])
  have "\<forall>c\<in>set ?s. \<not> is_lower c"
    using assms str_nat_digits upper_not_lower digit_not_lower by auto
  then have up: "upper ?s = ?s" by (rule upper_id)
  have al: "\<forall>c\<in>set L. isalpha c" using assms by (simp add: isalpha_def)
  have sp: "split_cell ?s [] [] = Some (L, str_nat row)"
    using split_cell_letters[OF al, of "str_nat row" "[]"]
          split_cell_digits[OF str_nat_digits, of row L "[]"] by simp
  show ?thesis
    using assms ne
    by (simp add: cell_to_indexes_def st up sp str_nat_nonempty int_of_digits_str_nat)
qed

text \<open>
  C9. For every non-empty sequence \<open>L\<close> of the letters A to Z and every positive row
  number, \<open>_cell_to_indexes\<close> accepts the reference \<open>L\<close> followed by the row, returns the
  zero-based row, and \<open>_column_letter\<close> of the returned column index plus one is \<open>L\<close>
  again; \<open>_column_letter(1)\<close> is "A" and \<open>_column_letter(27)\<close> is "AA".
\<close>

theorem column_letter_round_trip:
  "(L \<noteq> [] \<and> (\<forall>c\<in>set L. is_upper c) \<and> 0 < row \<longrightarrow>
      (\<exists>c. cell_to_indexes (L @ str_nat row) = Some (row - 1, c) \<and> column_letter (c + 1) = L))
   \<and> column_letter 1 = ''A'' \<and> column_letter 27 = ''AA''"
proof (intro conjI impI)
  assume h: "L \<noteq> [] \<and> (\<forall>c\<in>set L. is_upper c) \<and> 0 < row"
  then have "cell_to_indexes (L @ str_nat row) = Some (row - 1, col_index_of L - 1)"
    using cell_to_indexes_ref by blast
  moreover have "column_letter (col_index_of L - 1 + 1) = L"
    using h col_index_pos[of L] column_letter_col_index[of L] by simp
  ultimately show "\<exists>c. cell_to_indexes (L @ str_nat row) = Some (row - 1, c) \<and> column_letter (c + 1) = L"
    by blast
next
  show "column_letter 1 = ''A''" by code_simp
next
  show "column_letter 27 = ''AA''" by code_simp
qed

theorem column_letter_round_trip_witness:
  "cell_to_indexes ''AB12'' = Some (11, 27) \<and> column_letter 28 = ''AB''"
proof -
  have s: "str_nat 12 = ''12''" by code_simp
  have u: "\<forall>c\<in>set ''AB''. is_upper c" by (simp add: is_upper_def)
  from column_letter_round_trip[of "''AB''" 12] u s
  obtain c where c: "cell_to_indexes ''AB12'' = Some (11, c)" "column_letter (c + 1) = ''AB''"
    by auto
  have "cell_to_indexes ''AB12'' = Some (11, 27)" by code_simp
  with c show ?thesis by simp
qed

section \<open>Resolution: the exact match and the cached hint\<close>

text \<open>
  C1. In \<open>ex_exact_service\<close> exactly one cell equals the scenario name after trimming and
  lower-casing (Sheet1!A2). \<open>resolve_target_cell\<close>, called without a hint, returns the
  cell A1 that only matches after normalisation, and it has read Sheet2 as well: the
  exact match is neither preferred nor returned at once.
\<close>

theorem resolve_exact_match_not_returned:
  "lower (strip ''close-range'') = lower (strip ''Close Range'') = False \<and>
   lower (strip ''x'') = lower (strip ''Close Range'') = False \<and>
   (case resolve_target_cell (build_google_client ex_exact_service) ''S'' ''Close Range''
           DEFAULT_SCORE_HEADERS None None None None of
      (c, r) \<Rightarrow> (r, requests (service c)))
   = (Inr (''Sheet1'', ''D1'', ''A1''),
      [ListSheets ''S'', GetValues ''S'' ''Sheet1'', GetValues ''S'' ''Sheet2''])"
  by code_simp

text \<open>
  C4. On \<open>ex_progress_grid\<close> the search itself resolves "Close Range" to the score cell B2,
  the column left of "Progress", and the label cell A2. Given back as the cached hint,
  that triple passes the label test but fails \<open>_score_cell_matches\<close>, which accepts only
  the column right of "Progress": the worksheets are listed and searched again, and here
  the answer moves to the Archive worksheet.
\<close>

theorem resolve_cached_hint_rejected:
  "snd (resolve_target_cell (build_google_client ex_progress_only) ''S'' ''Close Range''
           DEFAULT_SCORE_HEADERS None None None None)
     = Inr (''Sheet1'', ''B2'', ''A2'') \<and>
   scenario_cell_matches ex_progress_grid ''A2'' (lower (strip ''Close Range'')) \<and>
   score_cell_matches ex_progress_grid ''B2'' (normalize_headers DEFAULT_SCORE_HEADERS) = False \<and>
   (case resolve_target_cell (build_google_client ex_progress_service) ''S'' ''Close Range''
           DEFAULT_SCORE_HEADERS None (Some ''Sheet1'') (Some ''B2'') (Some ''A2'') of
      (c, r) \<Rightarrow> (r, requests (service c)))
   = (Inr (''Archive'', ''D1'', ''A1''),
      [GetValues ''S'' ''Sheet1'', ListSheets ''S'', GetValues ''S'' ''Archive''])"
  by code_simp

section \<open>Mirror cells\<close>

text \<open>
  C8. \<open>find_mirror_cells\<close> on a worksheet of two rows and the valid reference B5: the
  row number exceeds the grid, \<open>row\<close> is never assigned, and the call raises
  UnboundLocalError instead of returning a list.
\<close>

theorem find_mirror_cells_row_beyond_grid:
  "cell_to_indexes ''B5'' = Some (4, 1) \<and>
   snd (find_mirror_cells (build_google_client ex_mirror_service) ''S'' ''Sheet1'' ''B5''
          DEFAULT_SCORE_HEADERS) = Inl UnboundLocalError"
  by code_simp

lemma mirror_header_scan_hit:
  "has_header_at col hs row \<Longrightarrow>
   mirror_header_scan (row # rows) (Suc col) hs =
     (if cell_blank (if length row > Suc col then row ! Suc col else Str []) \<and>
         cell_text_is (if length row > Suc (Suc col) then row ! Suc (Suc col) else Str [])
           ''progress''
      then [Suc (Suc col)] else [])"
  by (simp add: has_header_at_def Suc_le_eq)

lemma mirror_header_scan_miss:
  "\<not> has_header_at col hs row \<Longrightarrow>
   mirror_header_scan (row # rows) (Suc col) hs = mirror_header_scan rows (Suc col) hs"
  by (auto simp: has_header_at_def Suc_le_eq)

lemma mirror_header_scan_find:
  "find (has_header_at col hs) rows = Some hr \<Longrightarrow>
   mirror_header_scan rows (Suc col) hs =
     (if cell_blank (if length hr > Suc col then hr ! Suc col else Str []) \<and>
         cell_text_is (if length hr > Suc (Suc col) then hr ! Suc (Suc col) else Str [])
           ''progress''
      then [Suc (Suc col)] else [])"
proof (induction rows)
  case Nil
  then show ?case by simp
next
  case (Cons row rows)
  show ?case
  proof (cases "has_header_at col hs row")
    case True
    with Cons.prems have "hr = row" by simp
    with mirror_header_scan_hit[OF True] show ?thesis by simp
  next
    case False
    with Cons.prems have "find (has_header_at col hs) rows = Some hr" by simp
    from Cons.IH[OF this] show ?thesis
      unfolding mirror_header_scan_miss[OF False] .
  qed
qed

lemma merged_header_row_code:
  "merged_header_row col hs hr \<Longrightarrow>
   cell_blank (if length hr > Suc col then hr ! Suc col else Str []) \<and>
   cell_text_is (if length hr > Suc (Suc col) then hr ! Suc (Suc col) else Str []) ''progress''"
  by (auto simp: merged_header_row_def blank_or_absent_def cell_blank_def strip_def
           split: cell.splits if_splits)

text \<open>
  C7, as the code has it. Let the first of the first 20 rows that has a header at the
  score column show the merged-header layout (next cell blank or absent, then
  "Progress"), and let the score cell's row lie within the grid. Then
  \<open>find_mirror_cells\<close> returns exactly one cell: the column after the score column, on
  the score cell's row. The header set always contains "high score".
\<close>

theorem find_mirror_cells_first_header_row:
  assumes "get_sheet_values c sid ws = (c1, Inr vals)"
      and "cell_to_indexes score_ref = Some (r, col)"
      and "r < length vals"
      and "find (has_header_at col (header_set_of hc)) (take 20 vals) = Some hr"
      and "merged_header_row col (header_set_of hc) hr"
  shows "find_mirror_cells c sid ws score_ref hc
           = (c1, Inr [column_letter (col + 2) @ str_nat (r + 1)])
         \<and> ''high score'' \<in> set (header_set_of hc)"
proof -
  have m: "mirror_header_scan (take 20 vals) (Suc col) (header_set_of hc) = [Suc (Suc col)]"
    using mirror_header_scan_find[OF assms(4)] merged_header_row_code[OF assms(5)] by simp
  have "mirror_scan vals score_ref hc = Inr [column_letter (col + 2) @ str_nat (r + 1)]"
    using assms(2,3) by (simp add: mirror_scan_def m Let_def)
  then show ?thesis
    using assms(1) by (simp add: find_mirror_cells_def header_set_of_def)
qed

text \<open>
  The layout of the claim: header row "High Score", "", "Progress" at the score column B,
  and a data row whose neighbour cell differs from the score cell.
\<close>

theorem find_mirror_cells_first_header_row_witness:
  "find_mirror_cells (build_google_client ex_mirror_service) ''S'' ''Sheet1'' ''B2''
     DEFAULT_SCORE_HEADERS
   = (fst (get_sheet_values (build_google_client ex_mirror_service) ''S'' ''Sheet1''), Inr [''C2''])"
proof -
  let ?c = "build_google_client ex_mirror_service"
  let ?vals = "[[Str ''Scenario'', Str ''High Score'', Str '''', Str ''Progress''],
                [Str ''Close Range'', Str ''5'', Str ''7'']]"
  let ?hr = "[Str ''Scenario'', Str ''High Score'', Str '''', Str ''Progress'']"
  have g: "get_sheet_values ?c ''S'' ''Sheet1'' = (fst (get_sheet_values ?c ''S'' ''Sheet1''), Inr ?vals)"
    by (rule prod_eqI) (simp, code_simp)
  have i: "cell_to_indexes ''B2'' = Some (1, 1)" by code_simp
  have l: "(1::nat) < length ?vals" by simp
  have f: "find (has_header_at 1 (header_set_of DEFAULT_SCORE_HEADERS)) (take 20 ?vals) = Some ?hr"
    by code_simp
  have h: "merged_header_row 1 (header_set_of DEFAULT_SCORE_HEADERS) ?hr" by code_simp
  have n: "column_letter (1 + 2) @ str_nat (1 + 1) = ''C2''" by code_simp
  from find_mirror_cells_first_header_row[OF g i l f h] n show ?thesis by simp
qed

text \<open>
  C7 as stated fails: the second row has the merged-header layout at column A, yet the
  loop stops at the first row, whose header has a labelled neighbour, and no mirror cell
  is returned for A3.
\<close>

theorem find_mirror_cells_later_header_row_counterexample:
  "cell_to_indexes ''A3'' = Some (2, 0) \<and>
   list_ex (merged_header_row 0 (header_set_of DEFAULT_SCORE_HEADERS))
     (take 20 [[Str ''High Score'', Str ''Rank'', Str ''Progress''],
               [Str ''High Score'', Str '''', Str ''Progress''],
               [Str ''5'', Str ''6'']]) \<and>
   snd (find_mirror_cells (build_google_client ex_two_headers_service) ''S'' ''Sheet1'' ''A3''
          DEFAULT_SCORE_HEADERS) = Inr []"
  by code_simp

section \<open>Result files: parse errors\<close>



lemma strip_Nil: "strip [] = []" by (simp add: strip_def)













section \<open>The requests each client operation sends\<close>

lemma written_values_append [simp]:
  "written_values (xs @ ys) = written_values xs @ written_values ys"
  by (simp add: written_values_def)

lemma writes_append [simp]: "writes (xs @ ys) = writes xs @ writes ys"
  by (simp add: writes_def)

lemma writes_Nil [simp]: "writes [] = []"
  by (simp add: writes_def)

lemma get_sheet_values_requests:
  "get_sheet_values c sid ws = (c', r) \<Longrightarrow>
   \<exists>new. requests (service c') = requests (service c) @ new \<and> writes new = []"
  by (auto simp: get_sheet_values_def log_request_def Let_def writes_def is_write_def
           split: option.splits)

lemma list_sheet_titles_requests:
  "list_sheet_titles c sid = (c', r) \<Longrightarrow>
   \<exists>new. requests (service c') = requests (service c) @ new \<and> writes new = []"
  by (auto simp: list_sheet_titles_def log_request_def Let_def writes_def is_write_def
           split: option.splits)

lemma scan_sheets_requests:
  "scan_sheets c sid sn sl hs al titles bf = (c', r) \<Longrightarrow>
   \<exists>new. requests (service c') = requests (service c) @ new \<and> writes new = []"
proof (induction titles arbitrary: c bf)
  case Nil
  then show ?case by simp
next
  case (Cons title titles)
  show ?case
  proof (cases "case al of None \<Rightarrow> False | Some a \<Rightarrow> a \<noteq> [] \<and> title \<notin> set a")
    case True
    with Cons.prems have "scan_sheets c sid sn sl hs al titles bf = (c', r)" by simp
    from Cons.IH[OF this] show ?thesis .
  next
    case False
    obtain c1 r1 where g: "get_sheet_values c sid title = (c1, r1)"
      by (cases "get_sheet_values c sid title") auto
    from get_sheet_values_requests[OF g] obtain n1 where
      n1: "requests (service c1) = requests (service c) @ n1" "writes n1 = []" by blast
    show ?thesis
    proof (cases r1)
      case (Inl e)
      with Cons.prems False g have "c' = c1" by simp
      with n1 show ?thesis by blast
    next
      case (Inr vals)
      with Cons.prems False g obtain bf' where
        "scan_sheets c1 sid sn sl hs al titles bf' = (c', r)"
        by (auto simp: Let_def split: if_splits)
      from Cons.IH[OF this] obtain n2 where
        "requests (service c') = requests (service c1) @ n2" "writes n2 = []" by blast
      with n1 have "requests (service c') = requests (service c) @ (n1 @ n2) \<and> writes (n1 @ n2) = []"
        by simp
      then show ?thesis by blast
    qed
  qed
qed

lemma search_sheets_requests:
  assumes "search_sheets c sid name hs flt = (c', r)"
  shows "\<exists>new. requests (service c') = requests (service c) @ new \<and> writes new = []"
proof -
  obtain c1 r1 where l: "list_sheet_titles c sid = (c1, r1)"
    by (cases "list_sheet_titles c sid") auto
  from list_sheet_titles_requests[OF l] obtain n1 where
    n1: "requests (service c1) = requests (service c) @ n1" "writes n1 = []" by blast
  show ?thesis
  proof (cases r1)
    case (Inl e)
    with assms l have "c' = c1" by (simp add: search_sheets_def)
    with n1 show ?thesis by blast
  next
    case (Inr titles)
    obtain c2 r2 where s: "scan_sheets c1 sid (normalize_name name) (letters_only name) hs
        (case flt of None \<Rightarrow> None | Some f \<Rightarrow> if f = [] then None else Some (map strip f))
        titles None = (c2, r2)"
      by (cases "scan_sheets c1 sid (normalize_name name) (letters_only name) hs
        (case flt of None \<Rightarrow> None | Some f \<Rightarrow> if f = [] then None else Some (map strip f))
        titles None") auto
    from scan_sheets_requests[OF s] obtain n2 where
      n2: "requests (service c2) = requests (service c1) @ n2" "writes n2 = []" by blast
    from assms l Inr s have "c' = c2"
      by (auto simp: search_sheets_def Let_def split: sum.splits option.splits prod.splits)
    with n1 n2 have "requests (service c') = requests (service c) @ (n1 @ n2) \<and> writes (n1 @ n2) = []"
      by simp
    then show ?thesis by blast
  qed
qed

lemma resolve_target_cell_requests:
  assumes "resolve_target_cell c sid name hc flt cs csc cl = (c', r)"
  shows "\<exists>new. requests (service c') = requests (service c) @ new \<and> writes new = []"
proof (cases "truthy cs \<and> truthy csc \<and> truthy cl")
  case False
  with assms have "search_sheets c sid name (normalize_headers hc) flt = (c', r)"
    by (auto simp: resolve_target_cell_def Let_def)
  then show ?thesis by (rule search_sheets_requests)
next
  case True
  obtain c1 r1 where g: "get_sheet_values c sid (the cs) = (c1, r1)"
    by (cases "get_sheet_values c sid (the cs)") auto
  from get_sheet_values_requests[OF g] obtain n1 where
    n1: "requests (service c1) = requests (service c) @ n1" "writes n1 = []" by blast
  show ?thesis
  proof (cases r1)
    case (Inl e)
    with assms True g have "c' = c1" by (simp add: resolve_target_cell_def Let_def)
    with n1 show ?thesis by blast
  next
    case (Inr vals)
    with assms True g have
      "c' = c1 \<or> search_sheets c1 sid name (normalize_headers hc) flt = (c', r)"
      by (auto simp: resolve_target_cell_def Let_def split: if_splits)
    then show ?thesis
    proof
      assume "c' = c1"
      with n1 show ?thesis by blast
    next
      assume "search_sheets c1 sid name (normalize_headers hc) flt = (c', r)"
      from search_sheets_requests[OF this] obtain n2 where
        "requests (service c') = requests (service c1) @ n2" "writes n2 = []" by blast
      with n1 have "requests (service c') = requests (service c) @ (n1 @ n2) \<and> writes (n1 @ n2) = []"
        by simp
      then show ?thesis by blast
    qed
  qed
qed

lemma get_numeric_cell_requests:
  "get_numeric_cell pf c sid ws cref = (c', r) \<Longrightarrow>
   \<exists>new. requests (service c') = requests (service c) @ new \<and> writes new = []"
  using get_sheet_values_requests[of c sid ws]
  by (cases "get_sheet_values c sid ws") (auto simp: get_numeric_cell_def split: sum.splits)

lemma find_mirror_cells_requests:
  "find_mirror_cells c sid ws cref hc = (c', r) \<Longrightarrow>
   \<exists>new. requests (service c') = requests (service c) @ new \<and> writes new = []"
  using get_sheet_values_requests[of c sid ws]
  by (cases "get_sheet_values c sid ws") (auto simp: find_mirror_cells_def split: sum.splits)

lemma update_cell_requests:
  "update_cell c sid rng v = (c', r) \<Longrightarrow>
   requests (service c') = requests (service c) @ [UpdateCell sid rng v]"
  by (auto simp: update_cell_def remote_update_def log_request_def Let_def
           split: option.splits prod.splits)

lemma update_mirrors_requests:
  "update_mirrors c sid ws cells v = (c', r) \<Longrightarrow>
   \<exists>new. requests (service c') = requests (service c) @ new \<and>
         written_values new = replicate (length new) v \<and> writes new = new"
proof (induction cells arbitrary: c)
  case Nil
  then show ?case by (simp add: written_values_def writes_def)
next
  case (Cons x cells)
  obtain c1 r1 where u: "update_cell c sid (range_ref ws x) v = (c1, r1)"
    by (cases "update_cell c sid (range_ref ws x) v") auto
  note n1 = update_cell_requests[OF u]
  show ?case
  proof (cases r1)
    case (Inl e)
    with Cons.prems u have "c' = c1" by simp
    with n1 have "requests (service c') = requests (service c) @ [UpdateCell sid (range_ref ws x) v]
       \<and> written_values [UpdateCell sid (range_ref ws x) v] = replicate (length [UpdateCell sid (range_ref ws x) v]) v
       \<and> writes [UpdateCell sid (range_ref ws x) v] = [UpdateCell sid (range_ref ws x) v]"
      by (simp add: written_values_def writes_def is_write_def)
    then show ?thesis by blast
  next
    case (Inr u1)
    with Cons.prems u have "update_mirrors c1 sid ws cells v = (c', r)" by simp
    from Cons.IH[OF this] obtain n2 where n2:
      "requests (service c') = requests (service c1) @ n2"
      "written_values n2 = replicate (length n2) v" "writes n2 = n2" by blast
    let ?n = "UpdateCell sid (range_ref ws x) v # n2"
    from n1 n2 have "requests (service c') = requests (service c) @ ?n \<and>
        written_values ?n = replicate (length ?n) v \<and> writes ?n = ?n"
      by (simp add: written_values_def writes_def is_write_def)
    then show ?thesis by blast
  qed
qed

section \<open>One run of the driver loop\<close>

lemma list_all_update:
  "list_all P al \<Longrightarrow> P (k, v) \<Longrightarrow> list_all P (AList.update k v al)"
  by (induction al) auto

lemma scenario_entry_facts:
  assumes "scenario_entry st name = (st1, e0)"
  shows "best_score e0 = prior_best st name"
    and "map_of (scenarios st1) name = Some e0"
    and "list_all P (scenarios st) \<Longrightarrow> P (name, new_ScenarioState) \<Longrightarrow> list_all P (scenarios st1)"
  using assms
  by (auto simp: scenario_entry_def prior_best_def new_ScenarioState_def AList.update_conv'
                 list_all_update split: option.splits)

lemma process_run_unresolved:
  assumes "scenario_entry st (scenario run) = (st1, e0)"
      and "resolve_target_cell c (sheet_id config) (scenario run)
             (score_header_candidates config) (worksheet_filter config)
             (worksheet e0) (score_cell e0) (scenario_cell e0) = (c1, Inl e)"
  shows "process_run pf config run c st upd =
           (if is_GoogleClientError e then (c1, Inr (st1, upd)) else (c1, Inl e))"
  using assms by (simp add: process_run_def)

lemma process_run_resolved:
  assumes "scenario_entry st (scenario run) = (st1, e0)"
      and "resolve_target_cell c (sheet_id config) (scenario run)
             (score_header_candidates config) (worksheet_filter config)
             (worksheet e0) (score_cell e0) (scenario_cell e0) = (c1, Inr (ws, sr, lr))"
      and "get_numeric_cell pf c1 (sheet_id config) ws sr = (c2, Inr sv)"
      and "st2 = st1\<lparr>scenarios := AList.update (scenario run)
                 \<lparr>best_score = (if is_new_best st run then Some (score run)
                                 else prior_best st (scenario run)),
                  worksheet = Some ws, score_cell = Some sr, scenario_cell = Some lr\<rparr>
                 (scenarios st1)\<rparr>"
  shows "process_run pf config run c st upd =
     (if (case sv of None \<Rightarrow> False | Some x \<Rightarrow> isclose x (target_of st run)) \<and>
         \<not> is_new_best st run
      then (c2, Inr (st2, upd))
      else
        (case find_mirror_cells c2 (sheet_id config) ws sr (score_header_candidates config) of
           (c3, Inl e) \<Rightarrow> (c3, Inl e)
         | (c3, Inr mirror_cells) \<Rightarrow>
             (case update_cell c3 (sheet_id config) (range_ref ws sr) (target_of st run) of
                (c4, Inl e) \<Rightarrow> (c4, Inl e)
              | (c4, Inr u) \<Rightarrow>
                  (case update_mirrors c4 (sheet_id config) ws mirror_cells (target_of st run) of
                     (c5, Inl e) \<Rightarrow> (c5, Inl e)
                   | (c5, Inr u1) \<Rightarrow> (c5, Inr (st2, True))))))"
proof -
  have b: "best_score e0 = prior_best st (scenario run)"
    using scenario_entry_facts(1)[OF assms(1)] .
  show ?thesis
  proof (cases "prior_best st (scenario run)")
    case None
    show ?thesis
      unfolding process_run_def assms(1) assms(4)
      by (simp only: prod.case assms(2) assms(3) sum.case Let_def b None option.case
            is_new_best_def target_of_def if_True simp_thms)
  next
    case (Some pb)
    show ?thesis
      unfolding process_run_def assms(1) assms(4)
      by (simp only: prod.case assms(2) assms(3) sum.case Let_def b Some option.case
            is_new_best_def target_of_def option.sel)
  qed
qed

lemma writes_written_values: "writes new = [] \<Longrightarrow> written_values new = []"
  by (induction new) (auto simp: writes_def written_values_def is_write_def split: call.splits)

lemma written_values_Update [simp]:
  "written_values (UpdateCell sid rng v # rqs) = v # written_values rqs"
  by (simp add: written_values_def)

lemma process_run_resolved_failed_read:
  assumes "scenario_entry st (scenario run) = (st1, e0)"
      and "resolve_target_cell c (sheet_id config) (scenario run)
             (score_header_candidates config) (worksheet_filter config)
             (worksheet e0) (score_cell e0) (scenario_cell e0) = (c1, Inr (ws, sr, lr))"
      and "get_numeric_cell pf c1 (sheet_id config) ws sr = (c2, Inl e)"
  shows "process_run pf config run c st upd = (c2, Inl e)"
  unfolding process_run_def assms(1)
  by (simp only: prod.case assms(2) assms(3) sum.case Let_def)

text \<open>Every outcome of one run: the requests it added and the state it leaves.\<close>

lemma process_run_outcome:
  assumes pr: "process_run pf config run c st upd = (c', res)"
      and se: "scenario_entry st (scenario run) = (st1, e0)"
  obtains new where
    "requests (service c') = requests (service c) @ new"
    "set (written_values new) \<subseteq> {target_of st run}"
    "\<And>st' upd'. res = Inr (st', upd') \<Longrightarrow>
        st' = st1 \<or>
        (\<exists>ws sr lr. st' = st1\<lparr>scenarios := AList.update (scenario run)
           \<lparr>best_score = (if is_new_best st run then Some (score run)
                           else prior_best st (scenario run)),
            worksheet = Some ws, score_cell = Some sr, scenario_cell = Some lr\<rparr>
           (scenarios st1)\<rparr>)"
proof -
  let ?sid = "sheet_id config" and ?hc = "score_header_candidates config"
  let ?t = "target_of st run"
  obtain c1 r1 where rs: "resolve_target_cell c ?sid (scenario run) ?hc (worksheet_filter config)
             (worksheet e0) (score_cell e0) (scenario_cell e0) = (c1, r1)"
    by (cases "resolve_target_cell c ?sid (scenario run) ?hc (worksheet_filter config)
             (worksheet e0) (score_cell e0) (scenario_cell e0)") auto
  from resolve_target_cell_requests[OF rs] obtain n1 where
    n1: "requests (service c1) = requests (service c) @ n1" "writes n1 = []" by blast
  have w1: "written_values n1 = []" using n1(2) by (rule writes_written_values)
  show ?thesis
  proof (cases r1)
    case (Inl e)
    from process_run_unresolved[OF se rs[unfolded Inl], of pf upd] pr
    have cc: "c' = c1" and rr: "\<And>st' upd'. res = Inr (st', upd') \<Longrightarrow> st' = st1"
      by (auto split: if_splits)
    show ?thesis
    proof (rule that[of n1])
      show "requests (service c') = requests (service c) @ n1" using cc n1 by simp
      show "set (written_values n1) \<subseteq> {?t}" using w1 by simp
    qed (use rr in blast)
  next
    case (Inr triple)
    obtain ws sr lr where tr: "triple = (ws, sr, lr)" by (cases triple) auto
    note rs' = rs[unfolded Inr tr]
    define st2 where "st2 = st1\<lparr>scenarios := AList.update (scenario run)
                 \<lparr>best_score = (if is_new_best st run then Some (score run)
                                 else prior_best st (scenario run)),
                  worksheet = Some ws, score_cell = Some sr, scenario_cell = Some lr\<rparr>
                 (scenarios st1)\<rparr>"
    have P2: "\<exists>ws sr lr. st2 = st1\<lparr>scenarios := AList.update (scenario run)
           \<lparr>best_score = (if is_new_best st run then Some (score run)
                           else prior_best st (scenario run)),
            worksheet = Some ws, score_cell = Some sr, scenario_cell = Some lr\<rparr>
           (scenarios st1)\<rparr>"
      unfolding st2_def by (intro exI) (rule refl)
    obtain c2 r2 where gn: "get_numeric_cell pf c1 ?sid ws sr = (c2, r2)"
      by (cases "get_numeric_cell pf c1 ?sid ws sr") auto
    from get_numeric_cell_requests[OF gn] obtain n2 where
      n2: "requests (service c2) = requests (service c1) @ n2" "writes n2 = []" by blast
    have w2: "written_values n2 = []" using n2(2) by (rule writes_written_values)
    show ?thesis
    proof (cases r2)
      case (Inl e)
      from process_run_resolved_failed_read[OF se rs' gn[unfolded Inl], of upd] pr
      have cc: "c' = c2" and rr: "res = Inl e" by auto
      show ?thesis
      proof (rule that[of "n1 @ n2"])
        show "requests (service c') = requests (service c) @ n1 @ n2" using cc n1 n2 by simp
        show "set (written_values (n1 @ n2)) \<subseteq> {?t}" using w1 w2 by simp
      qed (simp add: rr)
    next
      case (Inr sv)
      note unf = process_run_resolved[OF se rs' gn[unfolded Inr] st2_def, of upd]
      show ?thesis
      proof (cases "(case sv of None \<Rightarrow> False | Some x \<Rightarrow> isclose x ?t) \<and> \<not> is_new_best st run")
        case True
        with unf pr have cc: "c' = c2" and rr: "res = Inr (st2, upd)" by auto
        show ?thesis
        proof (rule that[of "n1 @ n2"])
          show "requests (service c') = requests (service c) @ n1 @ n2" using cc n1 n2 by simp
          show "set (written_values (n1 @ n2)) \<subseteq> {?t}" using w1 w2 by simp
        next
          fix st' upd' assume "res = Inr (st', upd')"
          with rr have "st' = st2" by simp
          with P2 show "st' = st1 \<or> (\<exists>ws sr lr. st' = st1\<lparr>scenarios := AList.update (scenario run)
           \<lparr>best_score = (if is_new_best st run then Some (score run)
                           else prior_best st (scenario run)),
            worksheet = Some ws, score_cell = Some sr, scenario_cell = Some lr\<rparr>
           (scenarios st1)\<rparr>)" by (simp only: simp_thms)
        qed
      next
        case False
        obtain c3 r3 where fm: "find_mirror_cells c2 ?sid ws sr ?hc = (c3, r3)"
          by (cases "find_mirror_cells c2 ?sid ws sr ?hc") auto
        from find_mirror_cells_requests[OF fm] obtain n3 where
          n3: "requests (service c3) = requests (service c2) @ n3" "writes n3 = []" by blast
        have w3: "written_values n3 = []" using n3(2) by (rule writes_written_values)
        show ?thesis
        proof (cases r3)
          case (Inl e)
          with unf pr False fm have cc: "c' = c3" and rr: "res = Inl e" by auto
          show ?thesis
          proof (rule that[of "n1 @ n2 @ n3"])
            show "requests (service c') = requests (service c) @ n1 @ n2 @ n3"
              using cc n1 n2 n3 by simp
            show "set (written_values (n1 @ n2 @ n3)) \<subseteq> {?t}" using w1 w2 w3 by simp
          qed (simp add: rr)
        next
          case (Inr mirrors)
          obtain c4 r4 where uc: "update_cell c3 ?sid (range_ref ws sr) ?t = (c4, r4)"
            by (cases "update_cell c3 ?sid (range_ref ws sr) ?t") auto
          note n4 = update_cell_requests[OF uc]
          let ?u = "UpdateCell ?sid (range_ref ws sr) ?t"
          have w4: "written_values [?u] = [?t]" by (simp add: written_values_def)
          show ?thesis
          proof (cases r4)
            case (Inl e)
            with unf pr False fm \<open>r3 = Inr mirrors\<close> uc have cc: "c' = c4" and rr: "res = Inl e"
              by auto
            show ?thesis
            proof (rule that[of "n1 @ n2 @ n3 @ [?u]"])
              show "requests (service c') = requests (service c) @ n1 @ n2 @ n3 @ [?u]"
                using cc n1 n2 n3 n4 by simp
              show "set (written_values (n1 @ n2 @ n3 @ [?u])) \<subseteq> {?t}"
                using w1 w2 w3 w4 by simp
            qed (simp add: rr)
          next
            case (Inr u)
            obtain c5 r5 where um: "update_mirrors c4 ?sid ws mirrors ?t = (c5, r5)"
              by (cases "update_mirrors c4 ?sid ws mirrors ?t") auto
            from update_mirrors_requests[OF um] obtain n5 where
              n5: "requests (service c5) = requests (service c4) @ n5"
                  "written_values n5 = replicate (length n5) ?t" by blast
            have w5: "set (written_values n5) \<subseteq> {?t}" using n5(2) by auto
            from unf pr False fm \<open>r3 = Inr mirrors\<close> uc Inr um
            have cc: "c' = c5" and rr: "\<And>st' upd'. res = Inr (st', upd') \<Longrightarrow> st' = st2"
              by (auto split: sum.splits)
            show ?thesis
            proof (rule that[of "n1 @ n2 @ n3 @ [?u] @ n5"])
              show "requests (service c') = requests (service c) @ n1 @ n2 @ n3 @ [?u] @ n5"
                using cc n1 n2 n3 n4 n5 by simp
              show "set (written_values (n1 @ n2 @ n3 @ [?u] @ n5)) \<subseteq> {?t}"
                using w1 w2 w3 w4 w5 by simp
            next
              fix st' upd' assume "res = Inr (st', upd')"
              then have "st' = st2" by (rule rr)
              with P2 show "st' = st1 \<or> (\<exists>ws sr lr. st' = st1\<lparr>scenarios := AList.update (scenario run)
               \<lparr>best_score = (if is_new_best st run then Some (score run)
                               else prior_best st (scenario run)),
                worksheet = Some ws, score_cell = Some sr, scenario_cell = Some lr\<rparr>
               (scenarios st1)\<rparr>)" by (simp only: simp_thms)
            qed
          qed
        qed
      qed
    qed
  qed
qed

lemma new_requests_eq:
  "requests (service c') = requests (service c) @ new \<Longrightarrow> new_requests c c' = new"
  by (simp add: new_requests_def)

lemma scenario_entry_known:
  "map_of (scenarios st) name = Some entry \<Longrightarrow> scenario_entry st name = (st, entry)"
  by (simp add: scenario_entry_def)

lemma prior_best_update:
  "prior_best (st1\<lparr>scenarios := AList.update name entry (scenarios st1)\<rparr>) name
     = best_score entry"
  by (simp add: prior_best_def AList.update_conv')

lemma writes_Update [simp]:
  "writes (UpdateCell sid rng v # rqs) = UpdateCell sid rng v # writes rqs"
  by (simp add: writes_def is_write_def)

lemma process_run_skip_iff:
  assumes se: "scenario_entry st (scenario run) = (st1, e0)"
      and rs: "resolve_target_cell c (sheet_id config) (scenario run)
                 (score_header_candidates config) (worksheet_filter config)
                 (worksheet e0) (score_cell e0) (scenario_cell e0) = (c1, Inr (ws, sr, lr))"
      and gn: "get_numeric_cell pf c1 (sheet_id config) ws sr = (c2, Inr sv)"
      and fm: "find_mirror_cells c2 (sheet_id config) ws sr (score_header_candidates config)
                 = (c3, Inr mirrors)"
      and pr: "process_run pf config run c st upd = (c', res)"
  shows "(writes (new_requests c c') = []) =
           ((case sv of None \<Rightarrow> False | Some x \<Rightarrow> isclose x (target_of st run)) \<and>
            \<not> is_new_best st run)"
    and "writes (new_requests c c') \<noteq> [] \<Longrightarrow>
           hd (writes (new_requests c c'))
             = UpdateCell (sheet_id config) (range_ref ws sr) (target_of st run)"
proof -
  let ?sid = "sheet_id config" and ?t = "target_of st run"
  let ?skip = "(case sv of None \<Rightarrow> False | Some x \<Rightarrow> isclose x ?t) \<and> \<not> is_new_best st run"
  let ?u = "UpdateCell ?sid (range_ref ws sr) ?t"
  from resolve_target_cell_requests[OF rs] obtain n1 where
    n1: "requests (service c1) = requests (service c) @ n1" "writes n1 = []" by blast
  from get_numeric_cell_requests[OF gn] obtain n2 where
    n2: "requests (service c2) = requests (service c1) @ n2" "writes n2 = []" by blast
  from find_mirror_cells_requests[OF fm] obtain n3 where
    n3: "requests (service c3) = requests (service c2) @ n3" "writes n3 = []" by blast
  note unf = process_run_resolved[OF se rs gn refl, of upd]
  have both: "(writes (new_requests c c') = []) = ?skip \<and>
        (writes (new_requests c c') \<noteq> [] \<longrightarrow> hd (writes (new_requests c c')) = ?u)"
  proof (cases ?skip)
    case True
    with unf pr have "c' = c2" by auto
    with n1 n2 have "requests (service c') = requests (service c) @ (n1 @ n2)" by simp
    then have "new_requests c c' = n1 @ n2" by (rule new_requests_eq)
    with n1 n2 True show ?thesis by simp
  next
    case False
    obtain c4 r4 where uc: "update_cell c3 ?sid (range_ref ws sr) ?t = (c4, r4)"
      by (cases "update_cell c3 ?sid (range_ref ws sr) ?t") auto
    note n4 = update_cell_requests[OF uc]
    have "\<exists>n5. requests (service c') = requests (service c4) @ n5"
    proof (cases r4)
      case (Inl e)
      with unf pr False fm uc have "c' = c4" by auto
      then show ?thesis by simp
    next
      case (Inr u)
      obtain c5 r5 where um: "update_mirrors c4 ?sid ws mirrors ?t = (c5, r5)"
        by (cases "update_mirrors c4 ?sid ws mirrors ?t") auto
      from unf pr False fm uc Inr um have "c' = c5" by (auto split: sum.splits)
      with update_mirrors_requests[OF um] show ?thesis by blast
    qed
    then obtain n5 where n5: "requests (service c') = requests (service c4) @ n5" by blast
    with n1 n2 n3 n4 have "requests (service c') = requests (service c) @ (n1 @ n2 @ n3 @ ?u # n5)"
      by simp
    then have "new_requests c c' = n1 @ n2 @ n3 @ ?u # n5" by (rule new_requests_eq)
    with n1 n2 n3 False show ?thesis by simp
  qed
  from both show "(writes (new_requests c c') = []) = ?skip" by blast
  from both show "writes (new_requests c c') \<noteq> [] \<Longrightarrow> hd (writes (new_requests c c')) = ?u"
    by blast
qed

section \<open>The best score never goes down\<close>

text \<open>
  C2. Let the state record the best score \<open>b\<close> for the scenario of a run whose score is
  strictly lower. Whatever the run does (skip, write, failure), every update request it
  sends carries the value \<open>b\<close>, and the state it leaves still records \<open>b\<close> as the best
  score of the scenario.
\<close>

theorem process_run_keeps_best:
  assumes "map_of (scenarios st) (scenario run) = Some entry"
      and "best_score entry = Some b"
      and "score run < b"
      and "process_run pf config run c st upd = (c', res)"
  shows "requests (service c') = requests (service c) @ new_requests c c' \<and>
         set (written_values (new_requests c c')) \<subseteq> {b} \<and>
         (\<forall>st' upd'. res = Inr (st', upd') \<longrightarrow> prior_best st' (scenario run) = Some b)"
proof -
  have se: "scenario_entry st (scenario run) = (st, entry)"
    using assms(1) by (rule scenario_entry_known)
  have pb: "prior_best st (scenario run) = Some b"
    using assms(1,2) by (simp add: prior_best_def)
  have nb: "\<not> is_new_best st run" using pb assms(3) by (simp add: is_new_best_def)
  have tg: "target_of st run = b" using pb nb by (simp add: target_of_def)
  from process_run_outcome[OF assms(4) se] obtain new where
    n: "requests (service c') = requests (service c) @ new"
       "set (written_values new) \<subseteq> {target_of st run}" and
    s: "\<And>st' upd'. res = Inr (st', upd') \<Longrightarrow>
        st' = st \<or>
        (\<exists>ws sr lr. st' = st\<lparr>scenarios := AList.update (scenario run)
           \<lparr>best_score = (if is_new_best st run then Some (score run)
                           else prior_best st (scenario run)),
            worksheet = Some ws, score_cell = Some sr, scenario_cell = Some lr\<rparr>
           (scenarios st)\<rparr>)"
    by blast
  have nr: "new_requests c c' = new" using n(1) by (rule new_requests_eq)
  have "prior_best st' (scenario run) = Some b" if "res = Inr (st', upd')" for st' upd'
  proof -
    from s[OF that] show ?thesis
    proof
      assume "st' = st"
      with pb show ?thesis by simp
    next
      assume "\<exists>ws sr lr. st' = st\<lparr>scenarios := AList.update (scenario run)
           \<lparr>best_score = (if is_new_best st run then Some (score run)
                           else prior_best st (scenario run)),
            worksheet = Some ws, score_cell = Some sr, scenario_cell = Some lr\<rparr>
           (scenarios st)\<rparr>"
      then obtain ws sr lr where "st' = st\<lparr>scenarios := AList.update (scenario run)
           \<lparr>best_score = (if is_new_best st run then Some (score run)
                           else prior_best st (scenario run)),
            worksheet = Some ws, score_cell = Some sr, scenario_cell = Some lr\<rparr>
           (scenarios st)\<rparr>" by blast
      then show ?thesis using nb pb by (simp add: prior_best_update)
    qed
  qed
  with n nr tg show ?thesis by simp
qed

theorem process_run_keeps_best_witness:
  "written_values (new_requests (build_google_client ex_sheet)
      (fst (process_run ex_py_float ex_config ex_run_95 (build_google_client ex_sheet)
              ex_state_120 False))) = [120] \<and>
   (case snd (process_run ex_py_float ex_config ex_run_95 (build_google_client ex_sheet)
              ex_state_120 False) of
      Inl e \<Rightarrow> None
    | Inr (st', upd') \<Rightarrow> prior_best st' ''Close Range'') = Some 120"
proof -
  let ?c = "build_google_client ex_sheet"
  let ?p = "process_run ex_py_float ex_config ex_run_95 ?c ex_state_120 False"
  let ?e = "\<lparr>best_score = Some 120, worksheet = Some ''Sheet1'', score_cell = Some ''B2'',
           scenario_cell = Some ''A2''\<rparr>"
  have m: "map_of (scenarios ex_state_120) (scenario ex_run_95) = Some ?e" by code_simp
  have b: "best_score ?e = Some 120" by simp
  have l: "score ex_run_95 < 120" by (simp add: ex_run_95_def)
  have p: "?p = (fst ?p, snd ?p)" by simp
  have n: "scenario ex_run_95 = ''Close Range''" by (simp add: ex_run_95_def)
  have "(case snd ?p of Inl e \<Rightarrow> False | Inr x \<Rightarrow> True)" by code_simp
  then have r: "\<exists>st' upd'. snd ?p = Inr (st', upd')" by (cases "snd ?p") auto
  from process_run_keeps_best[OF m b l p]
  have k: "set (written_values (new_requests ?c (fst ?p))) \<subseteq> {120}"
       "\<And>st' upd'. snd ?p = Inr (st', upd') \<Longrightarrow> prior_best st' ''Close Range'' = Some 120"
    using n by auto
  have "written_values (new_requests ?c (fst ?p)) = [120]" by code_simp
  moreover from r k(2) have "(case snd ?p of Inl e \<Rightarrow> None
    | Inr (st', upd') \<Rightarrow> prior_best st' ''Close Range'') = Some 120" by auto
  ultimately show ?thesis by simp
qed

section \<open>When the write is skipped\<close>

text \<open>
  C3, as the code has it. Let a run resolve to the worksheet \<open>ws\<close> and the score cell
  \<open>sr\<close>, let \<open>sv\<close> be the number \<open>get_numeric_cell\<close> reads there from the client's cached
  grid, and let mirror detection return. Then the run sends no update request exactly when
  \<open>sv\<close> is close to the target and the run is not a new best; otherwise its first update
  request writes the target to the score cell. Three passes over the scores 120, 95 and
  140, each with a client built anew, leave 140 in the score cell after exactly two
  primary writes, 120 and 140.
\<close>

theorem skip_write_iff_cached_value_close:
  "(scenario_entry st (scenario run) = (st1, e0) \<and>
    resolve_target_cell c (sheet_id config) (scenario run)
       (score_header_candidates config) (worksheet_filter config)
       (worksheet e0) (score_cell e0) (scenario_cell e0) = (c1, Inr (ws, sr, lr)) \<and>
    get_numeric_cell pf c1 (sheet_id config) ws sr = (c2, Inr sv) \<and>
    find_mirror_cells c2 (sheet_id config) ws sr (score_header_candidates config)
       = (c3, Inr mirrors) \<and>
    process_run pf config run c st upd = (c', res) \<longrightarrow>
      (writes (new_requests c c') = []) =
         ((case sv of None \<Rightarrow> False | Some x \<Rightarrow> isclose x (target_of st run)) \<and>
          \<not> is_new_best st run) \<and>
      (writes (new_requests c c') \<noteq> [] \<longrightarrow>
         hd (writes (new_requests c c'))
           = UpdateCell (sheet_id config) (range_ref ws sr) (target_of st run))) \<and>
   writes (requests (fst (ex_three_passes False)))
     = [UpdateCell ''S'' (range_ref ''Sheet1'' ''B2'') 120,
        UpdateCell ''S'' (range_ref ''Sheet1'' ''B2'') 140] \<and>
   remote_get (fst (ex_three_passes False)) ''S'' ''Sheet1''
     = Some [[Str ''Scenario'', Str ''High Score''], [Str ''Close Range'', Num 140]]"
proof (intro conjI impI)
  assume h: "scenario_entry st (scenario run) = (st1, e0) \<and>
    resolve_target_cell c (sheet_id config) (scenario run)
       (score_header_candidates config) (worksheet_filter config)
       (worksheet e0) (score_cell e0) (scenario_cell e0) = (c1, Inr (ws, sr, lr)) \<and>
    get_numeric_cell pf c1 (sheet_id config) ws sr = (c2, Inr sv) \<and>
    find_mirror_cells c2 (sheet_id config) ws sr (score_header_candidates config)
       = (c3, Inr mirrors) \<and>
    process_run pf config run c st upd = (c', res)"
  then have se: "scenario_entry st (scenario run) = (st1, e0)"
    and rs: "resolve_target_cell c (sheet_id config) (scenario run)
       (score_header_candidates config) (worksheet_filter config)
       (worksheet e0) (score_cell e0) (scenario_cell e0) = (c1, Inr (ws, sr, lr))"
    and gn: "get_numeric_cell pf c1 (sheet_id config) ws sr = (c2, Inr sv)"
    and fm: "find_mirror_cells c2 (sheet_id config) ws sr (score_header_candidates config)
       = (c3, Inr mirrors)"
    and pr: "process_run pf config run c st upd = (c', res)" by blast+
  show "(writes (new_requests c c') = []) =
         ((case sv of None \<Rightarrow> False | Some x \<Rightarrow> isclose x (target_of st run)) \<and>
          \<not> is_new_best st run)"
    by (rule process_run_skip_iff(1)[OF se rs gn fm pr])
  assume "writes (new_requests c c') \<noteq> []"
  then show "hd (writes (new_requests c c'))
           = UpdateCell (sheet_id config) (range_ref ws sr) (target_of st run)"
    by (rule process_run_skip_iff(2)[OF se rs gn fm pr])
next
  show "writes (requests (fst (ex_three_passes False)))
     = [UpdateCell ''S'' (range_ref ''Sheet1'' ''B2'') 120,
        UpdateCell ''S'' (range_ref ''Sheet1'' ''B2'') 140]" by code_simp
next
  show "remote_get (fst (ex_three_passes False)) ''S'' ''Sheet1''
     = Some [[Str ''Scenario'', Str ''High Score''], [Str ''Close Range'', Num 140]]"
    by code_simp
qed

text \<open>
  The run with the score 95 against the recorded best 120, on a client whose cached grid
  shows the score cell empty: the cached value is not close to the target 120, so the run
  writes 120 to the score cell.
\<close>

theorem skip_write_iff_cached_value_close_witness:
  "writes (new_requests (build_google_client ex_sheet)
      (fst (process_run ex_py_float ex_config ex_run_95 (build_google_client ex_sheet)
              ex_state_120 False)))
   = [UpdateCell ''S'' (range_ref ''Sheet1'' ''B2'') 120] \<and>
   is_new_best ex_state_120 ex_run_95 = False \<and> target_of ex_state_120 ex_run_95 = 120"
proof -
  let ?c = "build_google_client ex_sheet"
  let ?p = "process_run ex_py_float ex_config ex_run_95 ?c ex_state_120 False"
  let ?e = "\<lparr>best_score = Some 120, worksheet = Some ''Sheet1'', score_cell = Some ''B2'',
           scenario_cell = Some ''A2''\<rparr>"
  let ?r = "resolve_target_cell ?c (sheet_id ex_config) (scenario ex_run_95)
       (score_header_candidates ex_config) (worksheet_filter ex_config)
       (worksheet ?e) (score_cell ?e) (scenario_cell ?e)"
  let ?c1 = "fst ?r"
  let ?g = "get_numeric_cell ex_py_float ?c1 (sheet_id ex_config) ''Sheet1'' ''B2''"
  let ?c2 = "fst ?g"
  let ?f = "find_mirror_cells ?c2 (sheet_id ex_config) ''Sheet1'' ''B2''
              (score_header_candidates ex_config)"
  have se: "scenario_entry ex_state_120 (scenario ex_run_95) = (ex_state_120, ?e)"
    by (rule scenario_entry_known) code_simp
  have rs: "?r = (?c1, Inr (''Sheet1'', ''B2'', ''A2''))"
    by (rule prod_eqI) (simp, code_simp)
  have gn: "?g = (?c2, Inr None)" by (rule prod_eqI) (simp, code_simp)
  have fm: "?f = (fst ?f, Inr [])" by (rule prod_eqI) (simp, code_simp)
  have pr: "?p = (fst ?p, snd ?p)" by simp
  have t: "target_of ex_state_120 ex_run_95 = 120" by code_simp
  have nb: "is_new_best ex_state_120 ex_run_95 = False" by code_simp
  have sid: "sheet_id ex_config = ''S''" by (simp add: ex_config_def)
  from skip_write_iff_cached_value_close
         [of ex_state_120 ex_run_95 ex_state_120 ?e ?c ex_config ?c1 "''Sheet1''" "''B2''"
             "''A2''" ex_py_float ?c2 None "fst ?f" "[]" False "fst ?p" "snd ?p"]
       se rs gn fm pr
  have ne: "writes (new_requests ?c (fst ?p)) \<noteq> []"
    and hd: "writes (new_requests ?c (fst ?p)) \<noteq> [] \<longrightarrow>
         hd (writes (new_requests ?c (fst ?p)))
           = UpdateCell ''S'' (range_ref ''Sheet1'' ''B2'') 120"
    by (simp_all only: t sid option.case simp_thms)
  have "length (writes (new_requests ?c (fst ?p))) = 1" by code_simp
  with ne hd have "writes (new_requests ?c (fst ?p))
       = [UpdateCell ''S'' (range_ref ''Sheet1'' ''B2'') 120]"
    by (cases "writes (new_requests ?c (fst ?p))") auto
  with nb t show ?thesis by simp
qed

text \<open>
  C3 as stated fails under \<open>watch_and_process\<close>, which passes one client to every pass:
  its cached grid still shows the score cell empty in the second pass, the run with the
  score 95 writes 120 again although the sheet already holds 120, and the three passes
  make three primary writes.
\<close>

theorem three_passes_shared_client_counterexample:
  "writes (requests (fst (ex_three_passes True)))
     = [UpdateCell ''S'' (range_ref ''Sheet1'' ''B2'') 120,
        UpdateCell ''S'' (range_ref ''Sheet1'' ''B2'') 120,
        UpdateCell ''S'' (range_ref ''Sheet1'' ''B2'') 140]"
  by code_simp

section \<open>The all-or-nothing triple\<close>

lemma load_scenarios_fold:
  "list_all (\<lambda>kv. triple_invariant (snd kv)) acc \<Longrightarrow>
   list_all (\<lambda>kv. stored_triple_ok (snd kv)) kvs \<Longrightarrow>
   (\<And>d. stored_triple_ok (JObj d) \<Longrightarrow> triple_invariant (load_entry pf pr d)) \<Longrightarrow>
   list_all (\<lambda>kv. triple_invariant (snd kv))
     (foldl (\<lambda>acc (name, data).
        case data of JObj d \<Rightarrow> AList.update name (load_entry pf pr d) acc | _ \<Rightarrow> acc) acc kvs)"
proof (induction kvs arbitrary: acc)
  case Nil
  then show ?case by simp
next
  case (Cons kv kvs)
  obtain name data where kv: "kv = (name, data)" by (cases kv)
  show ?case
  proof (cases data)
    case (JObj d)
    with Cons.prems kv have "triple_invariant (load_entry pf pr d)" by simp
    then have "list_all (\<lambda>kv. triple_invariant (snd kv)) (AList.update name (load_entry pf pr d) acc)"
      using Cons.prems(1) by (simp add: list_all_update)
    from Cons.IH[OF this] Cons.prems show ?thesis by (simp add: kv JObj)
  qed (use Cons kv in simp_all)
qed

lemma optional_str_unset:
  "field_unset d k \<Longrightarrow> optional_str pr (dict_get d k) = None"
  by (auto simp: field_unset_def optional_str_def dict_get_def py_str_def
           split: option.splits json.splits)

lemma optional_str_text:
  "field_text d k \<Longrightarrow> \<exists>y. optional_str pr (dict_get d k) = Some y"
  by (auto simp: field_text_def optional_str_def dict_get_def py_str_def Let_def
           split: option.splits json.splits)

lemma load_entry_invariant:
  "stored_triple_ok (JObj d) \<Longrightarrow> triple_invariant (load_entry pf pr d)"
  by (auto simp: stored_triple_ok_def triple_invariant_def load_entry_def
                 optional_str_unset optional_str_text split: if_splits)

lemma load_state_invariant:
  assumes "load_state pf pr fl = Inr st"
      and "list_all (\<lambda>kv. stored_triple_ok (snd kv)) (stored_scenarios fl)"
  shows "list_all (\<lambda>kv. triple_invariant (snd kv)) (scenarios st)"
proof (cases fl)
  case None
  with assms show ?thesis by (auto simp: load_state_def)
next
  case (Some j)
  show ?thesis
  proof (cases j)
    case (JObj raw)
    show ?thesis
    proof (cases "map_of raw ''scenarios''")
      case None
      with assms Some JObj show ?thesis
        by (auto simp: load_state_def load_scenarios_def legacy_processed_def Let_def)
    next
      case (Some v)
      show ?thesis
      proof (cases v)
        case (JObj kvs)
        have "list_all (\<lambda>kv. triple_invariant (snd kv)) (load_scenarios pf pr kvs)"
          unfolding load_scenarios_def
          using load_scenarios_fold[of "[]" kvs pf pr] assms(2) load_entry_invariant
          by (simp add: stored_scenarios_def \<open>fl = Some j\<close> \<open>j = JObj raw\<close> Some JObj)
        with assms(1) show ?thesis
          by (auto simp: load_state_def Let_def \<open>fl = Some j\<close> \<open>j = JObj raw\<close> Some JObj)
      qed (use assms \<open>fl = Some j\<close> \<open>j = JObj raw\<close> Some in \<open>auto simp: load_state_def Let_def\<close>)
    qed
  qed (use assms Some in \<open>auto simp: load_state_def\<close>)
qed

lemma process_run_invariant:
  assumes "process_run pf config run c st upd = (c', Inr (st', upd'))"
      and "list_all (\<lambda>kv. triple_invariant (snd kv)) (scenarios st)"
  shows "list_all (\<lambda>kv. triple_invariant (snd kv)) (scenarios st')"
proof -
  obtain st1 e0 where se: "scenario_entry st (scenario run) = (st1, e0)"
    by (cases "scenario_entry st (scenario run)") auto
  have i1: "list_all (\<lambda>kv. triple_invariant (snd kv)) (scenarios st1)"
    using scenario_entry_facts(3)[OF se, of "\<lambda>kv. triple_invariant (snd kv)"] assms(2)
    by (simp add: triple_invariant_def new_ScenarioState_def)
  from process_run_outcome[OF assms(1) se] obtain new where
    s: "\<And>st'' upd''. Inr (st', upd') = (Inr (st'', upd'') :: error + AppState \<times> bool) \<Longrightarrow>
        st'' = st1 \<or>
        (\<exists>ws sr lr. st'' = st1\<lparr>scenarios := AList.update (scenario run)
           \<lparr>best_score = (if is_new_best st run then Some (score run)
                           else prior_best st (scenario run)),
            worksheet = Some ws, score_cell = Some sr, scenario_cell = Some lr\<rparr>
           (scenarios st1)\<rparr>)"
    by blast
  from s[OF refl] show ?thesis
  proof
    assume "st' = st1"
    with i1 show ?thesis by simp
  next
    assume "\<exists>ws sr lr. st' = st1\<lparr>scenarios := AList.update (scenario run)
           \<lparr>best_score = (if is_new_best st run then Some (score run)
                           else prior_best st (scenario run)),
            worksheet = Some ws, score_cell = Some sr, scenario_cell = Some lr\<rparr>
           (scenarios st1)\<rparr>"
    then obtain ws sr lr where e: "st' = st1\<lparr>scenarios := AList.update (scenario run)
           \<lparr>best_score = (if is_new_best st run then Some (score run)
                           else prior_best st (scenario run)),
            worksheet = Some ws, score_cell = Some sr, scenario_cell = Some lr\<rparr>
           (scenarios st1)\<rparr>" by blast
    show ?thesis
      unfolding e using i1 by (simp add: list_all_update triple_invariant_def)
  qed
qed

lemma process_runs_invariant:
  "process_runs pf config runs c st upd = (c', Inr (st', upd')) \<Longrightarrow>
   list_all (\<lambda>kv. triple_invariant (snd kv)) (scenarios st) \<Longrightarrow>
   list_all (\<lambda>kv. triple_invariant (snd kv)) (scenarios st')"
proof (induction runs arbitrary: c st upd)
  case Nil
  then show ?case by simp
next
  case (Cons run runs)
  obtain c1 r1 where p: "process_run pf config run c st upd = (c1, r1)"
    by (cases "process_run pf config run c st upd") auto
  show ?case
  proof (cases r1)
    case (Inl e)
    with Cons.prems(1) p show ?thesis by simp
  next
    case (Inr su)
    obtain st1 upd1 where su: "su = (st1, upd1)" by (cases su) auto
    from process_run_invariant[OF p[unfolded Inr su] Cons.prems(2)]
    have i: "list_all (\<lambda>kv. triple_invariant (snd kv)) (scenarios st1)" .
    from Cons.prems(1) p Inr su
    have "process_runs pf config runs c1 st1 upd1 = (c', Inr (st', upd'))" by simp
    from Cons.IH[OF this i] show ?thesis .
  qed
qed

lemma set_update_subset: "set (AList.update k v al) \<subseteq> insert (k, v) (set al)"
  by (induction al) auto

lemma process_run_assigns:
  assumes se: "scenario_entry st (scenario run) = (st1, e0)"
      and rs: "resolve_target_cell c (sheet_id config) (scenario run)
                 (score_header_candidates config) (worksheet_filter config)
                 (worksheet e0) (score_cell e0) (scenario_cell e0) = (c1, Inr (ws, sr, lr))"
      and pr: "process_run pf config run c st upd = (c', Inr (st', upd'))"
  shows "\<exists>entry. map_of (scenarios st') (scenario run) = Some entry \<and>
           worksheet entry = Some ws \<and> score_cell entry = Some sr \<and>
           scenario_cell entry = Some lr"
proof -
  define entry where "entry =
     \<lparr>best_score = (if is_new_best st run then Some (score run)
                     else prior_best st (scenario run)),
      worksheet = Some ws, score_cell = Some sr, scenario_cell = Some lr\<rparr>"
  define st2 where "st2 = st1\<lparr>scenarios := AList.update (scenario run) entry (scenarios st1)\<rparr>"
  have st2: "st2 = st1\<lparr>scenarios := AList.update (scenario run)
                 \<lparr>best_score = (if is_new_best st run then Some (score run)
                                 else prior_best st (scenario run)),
                  worksheet = Some ws, score_cell = Some sr, scenario_cell = Some lr\<rparr>
                 (scenarios st1)\<rparr>"
    by (simp add: st2_def entry_def)
  obtain c2 r2 where gn: "get_numeric_cell pf c1 (sheet_id config) ws sr = (c2, r2)"
    by (cases "get_numeric_cell pf c1 (sheet_id config) ws sr") auto
  have "st' = st2"
  proof (cases r2)
    case (Inl e)
    from process_run_resolved_failed_read[OF se rs gn[unfolded Inl], of upd] pr
    show ?thesis by simp
  next
    case (Inr sv)
    from process_run_resolved[OF se rs gn[unfolded Inr] st2, of upd] pr
    show ?thesis by (auto split: if_splits prod.splits sum.splits)
  qed
  then have "map_of (scenarios st') (scenario run) = Some entry"
    by (simp add: st2_def AList.update_conv')
  moreover have "worksheet entry = Some ws" "score_cell entry = Some sr"
    "scenario_cell entry = Some lr" by (simp_all add: entry_def)
  ultimately show ?thesis by blast
qed

lemma process_run_entries:
  assumes "process_run pf config run c st upd = (c', Inr (st', upd'))"
  shows "list_all (\<lambda>kv. kv \<in> set (scenarios st) \<or> snd kv = new_ScenarioState \<or>
                        triple_set (snd kv)) (scenarios st')"
proof -
  obtain st1 e0 where se: "scenario_entry st (scenario run) = (st1, e0)"
    by (cases "scenario_entry st (scenario run)") auto
  have s1: "set (scenarios st1) \<subseteq> insert (scenario run, new_ScenarioState) (set (scenarios st))"
    using se set_update_subset[of "scenario run" new_ScenarioState "scenarios st"]
    by (auto simp: scenario_entry_def split: option.splits)
  from process_run_outcome[OF assms se] obtain new where
    s: "\<And>st'' upd''. Inr (st', upd') = (Inr (st'', upd'') :: error + AppState \<times> bool) \<Longrightarrow>
        st'' = st1 \<or>
        (\<exists>ws sr lr. st'' = st1\<lparr>scenarios := AList.update (scenario run)
           \<lparr>best_score = (if is_new_best st run then Some (score run)
                           else prior_best st (scenario run)),
            worksheet = Some ws, score_cell = Some sr, scenario_cell = Some lr\<rparr>
           (scenarios st1)\<rparr>)"
    by blast
  from s[OF refl] show ?thesis
  proof
    assume "st' = st1"
    with s1 show ?thesis by (auto simp: list_all_iff)
  next
    assume "\<exists>ws sr lr. st' = st1\<lparr>scenarios := AList.update (scenario run)
           \<lparr>best_score = (if is_new_best st run then Some (score run)
                           else prior_best st (scenario run)),
            worksheet = Some ws, score_cell = Some sr, scenario_cell = Some lr\<rparr>
           (scenarios st1)\<rparr>"
    then obtain ws sr lr where e: "st' = st1\<lparr>scenarios := AList.update (scenario run)
           \<lparr>best_score = (if is_new_best st run then Some (score run)
                           else prior_best st (scenario run)),
            worksheet = Some ws, score_cell = Some sr, scenario_cell = Some lr\<rparr>
           (scenarios st1)\<rparr>" by blast
    let ?entry = "\<lparr>best_score = (if is_new_best st run then Some (score run)
                           else prior_best st (scenario run)),
            worksheet = Some ws, score_cell = Some sr, scenario_cell = Some lr\<rparr>"
    have s2: "set (scenarios st') \<subseteq> insert (scenario run, ?entry) (set (scenarios st1))"
      unfolding e using set_update_subset[of "scenario run" ?entry "scenarios st1"] by simp
    have ts: "triple_set ?entry" by (simp add: triple_set_def)
    show ?thesis
      unfolding list_all_iff
    proof (intro ballI)
      fix kv assume "kv \<in> set (scenarios st')"
      with s2 have "kv = (scenario run, ?entry) \<or> kv \<in> set (scenarios st1)" by blast
      then show "kv \<in> set (scenarios st) \<or> snd kv = new_ScenarioState \<or> triple_set (snd kv)"
      proof
        assume "kv = (scenario run, ?entry)"
        with ts show ?thesis by simp
      next
        assume "kv \<in> set (scenarios st1)"
        with s1 have "kv = (scenario run, new_ScenarioState) \<or> kv \<in> set (scenarios st)"
          by blast
        then show ?thesis by auto
      qed
    qed
  qed
qed

lemma process_runs_entries:
  "process_runs pf config runs c st upd = (c', Inr (st', upd')) \<Longrightarrow>
   list_all (\<lambda>kv. kv \<in> set (scenarios st) \<or> snd kv = new_ScenarioState \<or>
                   triple_set (snd kv)) (scenarios st')"
proof (induction runs arbitrary: c st upd)
  case Nil
  then show ?case by (simp add: list_all_iff)
next
  case (Cons run runs)
  obtain c1 r1 where p: "process_run pf config run c st upd = (c1, r1)"
    by (cases "process_run pf config run c st upd") auto
  show ?case
  proof (cases r1)
    case (Inl e)
    with Cons.prems p show ?thesis by simp
  next
    case (Inr su)
    obtain st1 upd1 where su: "su = (st1, upd1)" by (cases su) auto
    note a = process_run_entries[OF p[unfolded Inr su]]
    from Cons.prems p Inr su
    have "process_runs pf config runs c1 st1 upd1 = (c', Inr (st', upd'))" by simp
    from Cons.IH[OF this] a show ?thesis by (auto simp: list_all_iff)
  qed
qed

text \<open>
  C6, as the code has it. \<open>load_state\<close> reconstructs states that satisfy the invariant
  from every state file in which each scenario entry with a score cell also has a
  worksheet and a label cell, both non-blank texts. A run that resolves leaves, for its
  scenario, a state whose worksheet, score cell and label cell are exactly the resolved
  triple. After the loop of a pass every scenario state is one the loop started with, a
  state with no field set, or a state with all three set; so the loop keeps the
  invariant.
\<close>

theorem triple_invariant_kept:
  "(load_state pf pr fl = Inr st \<and>
    list_all (\<lambda>kv. stored_triple_ok (snd kv)) (stored_scenarios fl) \<longrightarrow>
      list_all (\<lambda>kv. triple_invariant (snd kv)) (scenarios st)) \<and>
   (scenario_entry st0 (scenario run) = (st1, e0) \<and>
    resolve_target_cell c (sheet_id config) (scenario run)
       (score_header_candidates config) (worksheet_filter config)
       (worksheet e0) (score_cell e0) (scenario_cell e0) = (c1, Inr (ws, sr, lr)) \<and>
    process_run pf config run c st0 upd = (c2, Inr (st2, upd2)) \<longrightarrow>
      (\<exists>entry. map_of (scenarios st2) (scenario run) = Some entry \<and>
         worksheet entry = Some ws \<and> score_cell entry = Some sr \<and>
         scenario_cell entry = Some lr)) \<and>
   (process_runs pf config runs c st0 upd = (c', Inr (st', upd')) \<longrightarrow>
      list_all (\<lambda>kv. kv \<in> set (scenarios st0) \<or> snd kv = new_ScenarioState \<or>
                      triple_set (snd kv)) (scenarios st') \<and>
      (list_all (\<lambda>kv. triple_invariant (snd kv)) (scenarios st0) \<longrightarrow>
         list_all (\<lambda>kv. triple_invariant (snd kv)) (scenarios st')))"
  using load_state_invariant[of pf pr fl st]
        process_run_assigns[of st0 run st1 e0 c config c1 ws sr lr pf upd c2 st2 upd2]
        process_runs_entries[of pf config runs c st0 upd c' st' upd']
        process_runs_invariant[of pf config runs c st0 upd c' st' upd']
  by blast

text \<open>
  A state file written by \<open>save_state\<close> loads with the invariant, and the run with the
  score 95, started from the empty state, leaves the scenario with the whole triple
  Sheet1, B2, A2.
\<close>

theorem triple_invariant_kept_witness:
  "list_all (\<lambda>kv. triple_invariant (snd kv))
     (scenarios (projr (load_state ex_py_float ex_py_repr (Some (save_state ex_state_120))))) \<and>
   scenarios (projr (load_state ex_py_float ex_py_repr (Some (save_state ex_state_120))))
     = scenarios ex_state_120 \<and>
   (case snd (process_runs ex_py_float ex_config [ex_run_95] (build_google_client ex_sheet)
               \<lparr>scenarios = [], processed_files = []\<rparr> False) of
      Inl e \<Rightarrow> []
    | Inr (st', upd') \<Rightarrow>
        map (\<lambda>kv. (fst kv, worksheet (snd kv), score_cell (snd kv), scenario_cell (snd kv)))
          (scenarios st'))
     = [(''Close Range'', Some ''Sheet1'', Some ''B2'', Some ''A2'')]"
proof -
  let ?fl = "Some (save_state ex_state_120)"
  let ?l = "load_state ex_py_float ex_py_repr ?fl"
  let ?st0 = "\<lparr>scenarios = [], processed_files = []\<rparr> :: AppState"
  let ?c = "build_google_client ex_sheet"
  let ?ps = "process_runs ex_py_float ex_config [ex_run_95] ?c ?st0 False"
  let ?p = "process_run ex_py_float ex_config ex_run_95 ?c ?st0 False"
  let ?st1 = "\<lparr>scenarios = [(''Close Range'', new_ScenarioState)], processed_files = []\<rparr> :: AppState"
  let ?r = "resolve_target_cell ?c (sheet_id ex_config) (scenario ex_run_95)
       (score_header_candidates ex_config) (worksheet_filter ex_config)
       (worksheet new_ScenarioState) (score_cell new_ScenarioState)
       (scenario_cell new_ScenarioState)"
  have l: "?l = Inr ex_state_120" by code_simp
  have ok: "list_all (\<lambda>kv. stored_triple_ok (snd kv)) (stored_scenarios ?fl)" by code_simp
  have se: "scenario_entry ?st0 (scenario ex_run_95) = (?st1, new_ScenarioState)"
    by (simp add: scenario_entry_def ex_run_95_def)
  have rs: "?r = (fst ?r, Inr (''Sheet1'', ''B2'', ''A2''))"
    by (rule prod_eqI) (simp, code_simp)
  have "(case snd ?ps of Inl e \<Rightarrow> False | Inr x \<Rightarrow> True)" by code_simp
  then obtain st' upd' where r: "snd ?ps = Inr (st', upd')" by (cases "snd ?ps") auto
  then have ps: "?ps = (fst ?ps, Inr (st', upd'))" by (simp add: prod_eq_iff)
  then have p: "?p = (fst ?p, Inr (st', upd'))"
    by (cases ?p) (auto split: sum.splits)
  have n: "scenario ex_run_95 = ''Close Range''" by (simp add: ex_run_95_def)
  have "(case snd ?ps of Inl e \<Rightarrow> [] | Inr (st', upd') \<Rightarrow> map fst (scenarios st'))
          = [''Close Range'']" by code_simp
  with r have k: "map fst (scenarios st') = [''Close Range'']" by simp
  from triple_invariant_kept
         [of ex_py_float ex_py_repr ?fl ex_state_120 ?st0 ex_run_95 ?st1 new_ScenarioState
             ?c ex_config "fst ?r" "''Sheet1''" "''B2''" "''A2''" False "fst ?p" st' upd'
             "[ex_run_95]" "fst ?ps" st' upd']
       l ok se rs p ps
  have i: "list_all (\<lambda>kv. triple_invariant (snd kv)) (scenarios ex_state_120)"
    and a: "\<exists>entry. map_of (scenarios st') ''Close Range'' = Some entry \<and>
         worksheet entry = Some ''Sheet1'' \<and> score_cell entry = Some ''B2'' \<and>
         scenario_cell entry = Some ''A2''"
    unfolding n by blast+
  from a obtain entry where e: "map_of (scenarios st') ''Close Range'' = Some entry"
    "worksheet entry = Some ''Sheet1''" "score_cell entry = Some ''B2''"
    "scenario_cell entry = Some ''A2''" by blast
  from k obtain v where sc: "scenarios st' = [(''Close Range'', v)]"
    by (cases "scenarios st'") auto
  with e have "v = entry" by simp
  with sc e have "map (\<lambda>kv. (fst kv, worksheet (snd kv), score_cell (snd kv), scenario_cell (snd kv)))
          (scenarios st') = [(''Close Range'', Some ''Sheet1'', Some ''B2'', Some ''A2'')]"
    by simp
  with i l r show ?thesis by simp
qed

text \<open>
  C6 as stated fails for \<open>load_state\<close>: a state file whose entry holds only a score cell
  is read as it is, and the reconstructed state has a score cell without a worksheet or a
  label cell.
\<close>

theorem load_state_partial_entry_counterexample:
  "load_state ex_py_float ex_py_repr (Some ex_partial_state_file)
     = Inr \<lparr>scenarios = [(''Close Range'',
               \<lparr>best_score = None, worksheet = None, score_cell = Some ''B2'',
                scenario_cell = None\<rparr>)],
            processed_files = []\<rparr> \<and>
   triple_invariant \<lparr>best_score = None, worksheet = None, score_cell = Some ''B2'',
                     scenario_cell = None\<rparr> = False"
  by code_simp

section \<open>A pass with nothing new\<close>

lemma dropWhile_rev_last:
  assumes "dropWhile P xs \<noteq> []"
  shows "last (dropWhile P xs) = last xs"
proof -
  have "xs = takeWhile P xs @ dropWhile P xs" by simp
  then have "last xs = last (takeWhile P xs @ dropWhile P xs)" by simp
  also have "\<dots> = last (dropWhile P xs)" using assms by (simp only: last_append if_False)
  finally show ?thesis by simp
qed

lemma strip_strip: "strip (strip s) = strip s"
proof (cases "strip s = []")
  case True
  then show ?thesis using strip_Nil by simp
next
  case False
  let ?t = "dropWhile isspace s"
  let ?u = "dropWhile isspace (rev ?t)"
  have s: "strip s = rev ?u" by (simp add: strip_def)
  with False have une: "?u \<noteq> []" by simp
  have tne: "?t \<noteq> []"
  proof
    assume e: "?t = []"
    show False using une unfolding e by simp
  qed
  have h1: "\<not> isspace (hd ?u)" using une by (rule hd_dropWhile)
  have "last ?u = last (rev ?t)" using une by (rule dropWhile_rev_last)
  also have "\<dots> = hd ?t" using tne by (simp add: last_rev)
  finally have "last ?u = hd ?t" .
  moreover have "\<not> isspace (hd ?t)" using tne by (rule hd_dropWhile)
  ultimately have h2: "\<not> isspace (last ?u)" by simp
  have "hd (rev ?u) = last ?u" using une by (simp add: hd_rev)
  moreover have "last (rev ?u) = hd ?u" using une by (simp add: last_rev)
  ultimately have "\<not> isspace (hd (strip s))" "\<not> isspace (last (strip s))"
    using h1 h2 s by simp_all
  with False show ?thesis by (rule strip_id)
qed

lemma optional_str_stored: "stored_text (optional_str pr v)"
  by (auto simp: stored_text_def optional_str_def Let_def strip_strip split: option.splits)

lemma load_entry_loaded: "loaded_entry (load_entry pf pr d)"
  by (simp add: loaded_entry_def load_entry_def optional_str_stored)

lemma load_scenarios_form:
  "distinct (map fst acc) \<Longrightarrow> list_all (\<lambda>kv. loaded_entry (snd kv)) acc \<Longrightarrow>
   distinct (map fst (foldl (\<lambda>acc (name, data).
        case data of JObj d \<Rightarrow> AList.update name (load_entry pf pr d) acc | _ \<Rightarrow> acc) acc kvs)) \<and>
   list_all (\<lambda>kv. loaded_entry (snd kv)) (foldl (\<lambda>acc (name, data).
        case data of JObj d \<Rightarrow> AList.update name (load_entry pf pr d) acc | _ \<Rightarrow> acc) acc kvs)"
proof (induction kvs arbitrary: acc)
  case Nil
  then show ?case by simp
next
  case (Cons kv kvs)
  obtain name data where kv: "kv = (name, data)" by (cases kv)
  show ?case
  proof (cases data)
    case (JObj d)
    let ?a = "AList.update name (load_entry pf pr d) acc"
    have "distinct (map fst ?a)" using Cons.prems(1) by (rule distinct_update)
    moreover have "list_all (\<lambda>kv. loaded_entry (snd kv)) ?a"
      using Cons.prems(2) by (simp add: list_all_update load_entry_loaded)
    ultimately show ?thesis using Cons.IH[of ?a] by (simp add: kv JObj)
  qed (use Cons kv in simp_all)
qed

lemma load_state_form:
  assumes "load_state pf pr fl = Inr st"
  shows "distinct (map fst (scenarios st)) \<and> list_all (\<lambda>kv. loaded_entry (snd kv)) (scenarios st)"
proof -
  have f: "distinct (map fst (load_scenarios pf pr kvs)) \<and>
           list_all (\<lambda>kv. loaded_entry (snd kv)) (load_scenarios pf pr kvs)" for kvs
    unfolding load_scenarios_def using load_scenarios_form[of "[]" pf pr kvs] by simp
  show ?thesis
  proof (cases fl)
    case None
    with assms show ?thesis by (auto simp: load_state_def)
  next
    case (Some j)
    show ?thesis
    proof (cases j)
      case (JObj raw)
      show ?thesis
      proof (cases "map_of raw ''scenarios''")
        case None
        with assms \<open>fl = Some j\<close> JObj f[of "[]"] show ?thesis
          by (auto simp: load_state_def Let_def)
      next
        case (Some v)
        show ?thesis
        proof (cases v)
          case (JObj kvs)
          with assms \<open>fl = Some j\<close> \<open>j = JObj raw\<close> Some f[of kvs] show ?thesis
            by (auto simp: load_state_def Let_def)
        qed (use assms \<open>fl = Some j\<close> \<open>j = JObj raw\<close> Some in \<open>auto simp: load_state_def Let_def\<close>)
      qed
    qed (use assms Some in \<open>auto simp: load_state_def\<close>)
  qed
qed

lemma update_fresh: "k \<notin> fst ` set al \<Longrightarrow> AList.update k v al = al @ [(k, v)]"
  by (induction al) auto

lemma optional_str_saved:
  "stored_text t \<Longrightarrow>
   optional_str pr (case (case t of None \<Rightarrow> JNull | Some s \<Rightarrow> JStr s) of
                      JNull \<Rightarrow> None | r \<Rightarrow> Some r) = t"
  by (cases t) (simp_all add: stored_text_def optional_str_def py_str_def Let_def)

lemma to_optional_float_saved:
  "to_optional_float pf (case (case b of None \<Rightarrow> JNull | Some x \<Rightarrow> JNum x) of
                          JNull \<Rightarrow> None | r \<Rightarrow> Some r) = b"
  by (cases b) (simp_all add: to_optional_float_def)

lemma load_entry_entry_json:
  assumes "loaded_entry entry" "entry_json entry = JObj d"
  shows "load_entry pf pr d = entry"
proof -
  from assms(2) have d: "d = [(''best_score'', case best_score entry of None \<Rightarrow> JNull | Some b \<Rightarrow> JNum b),
           (''worksheet'', case worksheet entry of None \<Rightarrow> JNull | Some t \<Rightarrow> JStr t),
           (''score_cell'', case score_cell entry of None \<Rightarrow> JNull | Some t \<Rightarrow> JStr t),
           (''scenario_cell'', case scenario_cell entry of None \<Rightarrow> JNull | Some t \<Rightarrow> JStr t)]"
    by (simp add: entry_json_def)
  have 1: "to_optional_float pf (dict_get d ''best_score'') = best_score entry"
    unfolding d dict_get_def using to_optional_float_saved[of pf "best_score entry"] by simp
  have 2: "optional_str pr (dict_get d ''worksheet'') = worksheet entry"
    unfolding d dict_get_def using optional_str_saved[of "worksheet entry" pr] assms(1)
    by (simp add: loaded_entry_def)
  have 3: "optional_str pr (dict_get d ''score_cell'') = score_cell entry"
    unfolding d dict_get_def using optional_str_saved[of "score_cell entry" pr] assms(1)
    by (simp add: loaded_entry_def)
  have 4: "optional_str pr (dict_get d ''scenario_cell'') = scenario_cell entry"
    unfolding d dict_get_def using optional_str_saved[of "scenario_cell entry" pr] assms(1)
    by (simp add: loaded_entry_def)
  show ?thesis by (simp add: load_entry_def 1 2 3 4)
qed

lemma load_saved_scenarios:
  "distinct (map fst scs) \<Longrightarrow> fst ` set scs \<inter> fst ` set acc = {} \<Longrightarrow>
   list_all (\<lambda>kv. loaded_entry (snd kv)) scs \<Longrightarrow>
   foldl (\<lambda>acc (name, data).
        case data of JObj d \<Rightarrow> AList.update name (load_entry pf pr d) acc | _ \<Rightarrow> acc) acc
     (map (\<lambda>(name, entry). (name, entry_json entry)) scs) = acc @ scs"
proof (induction scs arbitrary: acc)
  case Nil
  then show ?case by simp
next
  case (Cons kv scs)
  obtain name entry where kv: "kv = (name, entry)" by (cases kv)
  obtain d where d: "entry_json entry = JObj d" by (simp add: entry_json_def)
  from Cons.prems(3) kv have "loaded_entry entry" by simp
  then have le: "load_entry pf pr d = entry" using d by (rule load_entry_entry_json)
  from Cons.prems(2) kv have "name \<notin> fst ` set acc" by auto
  then have u: "AList.update name entry acc = acc @ [(name, entry)]" by (rule update_fresh)
  have "fst ` set scs \<inter> fst ` set (acc @ [(name, entry)]) = {}"
    using Cons.prems(1,2) kv by auto
  from Cons.IH[OF _ this] Cons.prems(1,3) kv
  show ?case by (simp add: d le u)
qed

lemma legacy_processed_saved:
  "legacy_processed pr (map (\<lambda>(name, entry). (name, entry_json entry)) scs) = []"
  by (induction scs) (auto simp: legacy_processed_def entry_json_def dict_get_def)

lemma last500_idem: "last500 (last500 xs) = last500 xs"
  by (simp add: last500_def)

lemma load_state_save_state:
  assumes "distinct (map fst (scenarios st))"
      and "list_all (\<lambda>kv. loaded_entry (snd kv)) (scenarios st)"
  shows "load_state pf pr (Some (save_state st))
           = Inr (st\<lparr>processed_files := last500 (processed_files st)\<rparr>)"
proof -
  have s: "load_scenarios pf pr (map (\<lambda>(name, entry). (name, entry_json entry)) (scenarios st))
             = scenarios st"
    unfolding load_scenarios_def using load_saved_scenarios[OF assms(1) _ assms(2), of "[]"]
    by simp
  have m: "map (py_str pr \<circ> JStr) xs = xs" for xs
    by (induction xs) (simp_all add: py_str_def)
  show ?thesis
    by (simp add: load_state_def save_state_def dict_get_def Let_def s m
          legacy_processed_saved)
qed

lemma collect_all_processed:
  "fst ` set fs \<subseteq> S \<Longrightarrow> collect_loop pf True fs S P R = Inr (R, P)"
  by (induction fs) auto

lemma process_once_all_processed:
  assumes "load_state pf pr (state_file fs) = Inr st"
      and "fst ` set (stats_files fs) \<subseteq> set (processed_files st)"
  shows "process_once pf pr fs config c True =
           (fs\<lparr>state_file :=
                 Some (save_state (st\<lparr>processed_files := last500 (processed_files st)\<rparr>))\<rparr>,
            c, Inr False)"
proof -
  have "collect_runs pf (stats_files fs) (processed_files st) True = Inr ([], processed_files st)"
    using collect_all_processed[OF assms(2), of pf "processed_files st" "[]"]
    by (simp add: collect_runs_def)
  then show ?thesis by (simp add: process_once_def assms(1))
qed

lemma last500_short: "length xs \<le> 500 \<Longrightarrow> last500 xs = xs"
  by (simp add: last500_def)

text \<open>
  C5, as the code has it. Let \<open>process_once\<close> run with \<open>skip_processed\<close> on, and let every
  discovered stats file be in the processed list of the loaded state. Then the pass
  returns False and hands the client back unchanged (no request is sent), and the state
  file it writes loads as the loaded state with the processed list cut to its last 500
  entries. A second pass returns False again and leaves the files and the client as they
  are, provided every discovered file is still in the list after the cut; that is so
  whenever the loaded list has at most 500 entries.
\<close>

theorem process_once_nothing_new:
  assumes "load_state pf pr (state_file fs) = Inr st"
      and "fst ` set (stats_files fs) \<subseteq> set (processed_files st)"
      and "trimmed = drop (length (processed_files st) - 500) (processed_files st)"
      and "fs' = fs\<lparr>state_file := Some (save_state (st\<lparr>processed_files := trimmed\<rparr>))\<rparr>"
  shows "process_once pf pr fs config c True = (fs', c, Inr False) \<and>
         load_state pf pr (state_file fs') = Inr (st\<lparr>processed_files := trimmed\<rparr>) \<and>
         length trimmed \<le> 500 \<and>
         (fst ` set (stats_files fs) \<subseteq> set trimmed \<longrightarrow>
            process_once pf pr fs' config c True = (fs', c, Inr False)) \<and>
         (length (processed_files st) \<le> 500 \<longrightarrow>
            process_once pf pr fs' config c True = (fs', c, Inr False))"
proof -
  have tr: "trimmed = last500 (processed_files st)" by (simp add: assms(3) last500_def)
  let ?st = "st\<lparr>processed_files := last500 (processed_files st)\<rparr>"
  have first: "process_once pf pr fs config c True = (fs', c, Inr False)"
    unfolding assms(4) tr using assms(1,2) by (rule process_once_all_processed)
  from load_state_form[OF assms(1)]
  have form: "distinct (map fst (scenarios ?st))"
             "list_all (\<lambda>kv. loaded_entry (snd kv)) (scenarios ?st)" by simp_all
  have reload: "load_state pf pr (state_file fs') = Inr ?st"
    using load_state_save_state[OF form, of pf pr] by (simp add: assms(4) tr last500_idem)
  have len: "length trimmed \<le> 500" by (simp add: assms(3))
  have second: "process_once pf pr fs' config c True = (fs', c, Inr False)"
    if "fst ` set (stats_files fs) \<subseteq> set trimmed"
  proof -
    have "fst ` set (stats_files fs') \<subseteq> set (processed_files ?st)"
      using that by (simp add: assms(4) tr)
    from process_once_all_processed[OF reload this, of config c]
    show ?thesis by (simp add: last500_idem assms(4) tr)
  qed
  have short: "process_once pf pr fs' config c True = (fs', c, Inr False)"
    if "length (processed_files st) \<le> 500"
  proof -
    from that have "trimmed = processed_files st" by (simp add: assms(3))
    with assms(2) show ?thesis by (intro second) simp
  qed
  from first reload len second short show ?thesis by (simp add: tr)
qed

text \<open>The 501 file names of the example: all different, run0.csv first, run500.csv last.\<close>

lemma ex_id_inj: "ex_id m = ex_id n \<Longrightarrow> m = n"
proof -
  assume "ex_id m = ex_id n"
  then have "str_nat m = str_nat n" by (simp add: ex_id_def)
  then have "int_of_digits (str_nat m) = int_of_digits (str_nat n)" by simp
  then show "m = n" by (simp only: int_of_digits_str_nat)
qed

lemma ex_ids_length: "length ex_ids = 501"
  by (simp add: ex_ids_def)

lemma ex_ids_tl: "tl ex_ids = map ex_id [1..<501]"
  by (simp add: ex_ids_def map_tl[symmetric] tl_upt)

lemma ex_ids_last500: "last500 ex_ids = tl ex_ids"
  by (simp add: last500_def ex_ids_length drop_Suc)

lemma ex_ids_tl_length: "length (tl ex_ids) = 500"
  by (simp add: ex_ids_length)

lemma ex_id_0: "ex_id 0 = ''run0.csv''"
  by code_simp

lemma ex_id_500: "ex_id 500 = ''run500.csv''"
  by code_simp

lemma run0_listed: "''run0.csv'' \<in> set ex_ids"
  unfolding ex_id_0[symmetric] ex_ids_def by simp

lemma run0_cut: "''run0.csv'' \<notin> set (tl ex_ids)"
proof
  assume "''run0.csv'' \<in> set (tl ex_ids)"
  then obtain n where "n \<in> set [1..<501]" "ex_id n = ex_id 0"
    unfolding ex_ids_tl ex_id_0[symmetric] by auto
  then show False using ex_id_inj[of n 0] by simp
qed

lemma run500_kept: "''run500.csv'' \<in> set (tl ex_ids)"
  unfolding ex_id_500[symmetric] ex_ids_tl by simp

lemma ex_long_files_load:
  "load_state ex_py_float ex_py_repr (state_file (ex_long_files path))
     = Inr \<lparr>scenarios = [], processed_files = ex_ids\<rparr>"
proof -
  have m: "map (py_str ex_py_repr \<circ> JStr) xs = xs" for xs
    by (induction xs) (simp_all add: py_str_def)
  show ?thesis
    by (simp add: ex_long_files_def ex_long_state_file_def load_state_def dict_get_def
          load_scenarios_def legacy_processed_def m)
qed

text \<open>The run for run0.csv on the sheet of the example, whatever the processed list.\<close>

lemma ex_first_run_writes:
  "(case process_runs ex_py_float ex_config
           [\<lparr>scenario = ''Close Range'', score = 120, source_file = ''run0.csv''\<rparr>]
           (build_google_client ex_sheet) \<lparr>scenarios = [], processed_files = P\<rparr> False of
      (c2, r) \<Rightarrow> (writes (requests (service c2)),
                 case r of Inl e \<Rightarrow> None | Inr (st', u) \<Rightarrow> Some u))
   = ([UpdateCell ''S'' (range_ref ''Sheet1'' ''B2'') 120], Some True)"
  by code_simp

text \<open>
  The state file lists 501 processed files and the discovered file is the newest of them,
  run500.csv. The pass cuts the list to the 500 entries after run0.csv and writes it; the
  discovered file is still listed, and a second pass changes nothing.
\<close>

theorem process_once_nothing_new_witness:
  "process_once ex_py_float ex_py_repr (ex_long_files ''run500.csv'') ex_config
      (build_google_client ex_sheet) True
   = ((ex_long_files ''run500.csv'')
        \<lparr>state_file := Some (save_state \<lparr>scenarios = [], processed_files = tl ex_ids\<rparr>)\<rparr>,
      build_google_client ex_sheet, Inr False) \<and>
   length ex_ids = 501 \<and> length (tl ex_ids) = 500 \<and>
   process_once ex_py_float ex_py_repr
      ((ex_long_files ''run500.csv'')
        \<lparr>state_file := Some (save_state \<lparr>scenarios = [], processed_files = tl ex_ids\<rparr>)\<rparr>)
      ex_config (build_google_client ex_sheet) True
   = ((ex_long_files ''run500.csv'')
        \<lparr>state_file := Some (save_state \<lparr>scenarios = [], processed_files = tl ex_ids\<rparr>)\<rparr>,
      build_google_client ex_sheet, Inr False)"
proof -
  let ?fs = "ex_long_files ''run500.csv''"
  let ?st = "\<lparr>scenarios = [], processed_files = ex_ids\<rparr> :: AppState"
  have l: "load_state ex_py_float ex_py_repr (state_file ?fs) = Inr ?st"
    by (rule ex_long_files_load)
  have in_tl: "fst ` set (stats_files ?fs) \<subseteq> set (tl ex_ids)"
    using run500_kept by (simp add: ex_long_files_def)
  have "ex_ids \<noteq> []" using ex_ids_length by auto
  then have "set (tl ex_ids) \<subseteq> set ex_ids" by (auto dest: list.set_sel(2))
  with in_tl have p: "fst ` set (stats_files ?fs) \<subseteq> set (processed_files ?st)" by auto
  have t: "tl ex_ids = drop (length (processed_files ?st) - 500) (processed_files ?st)"
    by (simp add: ex_ids_length drop_Suc)
  have f: "?fs\<lparr>state_file := Some (save_state \<lparr>scenarios = [], processed_files = tl ex_ids\<rparr>)\<rparr>
           = ?fs\<lparr>state_file := Some (save_state (?st\<lparr>processed_files := tl ex_ids\<rparr>))\<rparr>"
    by simp
  from process_once_nothing_new[OF l p t f, of ex_config "build_google_client ex_sheet"] in_tl
  show ?thesis by (simp add: ex_ids_length)
qed

text \<open>
  C5 as stated fails for the second pass. The state file lists 501 processed files and
  the one discovered file is the oldest of them, run0.csv. The first pass sends no
  request and returns False, but it cuts run0.csv from the list it writes; the second
  pass then takes run0.csv for a new file, parses it and writes its score to the sheet.
\<close>

theorem process_once_trimmed_file_counterexample:
  "load_state ex_py_float ex_py_repr (state_file (ex_long_files ''run0.csv''))
     = Inr \<lparr>scenarios = [], processed_files = ex_ids\<rparr> \<and>
   ''run0.csv'' \<in> set ex_ids \<and>
   (case process_once ex_py_float ex_py_repr (ex_long_files ''run0.csv'') ex_config
           (build_google_client ex_sheet) True of
      (fs1, c1, r1) \<Rightarrow>
        (r1, requests (service c1),
         case process_once ex_py_float ex_py_repr fs1 ex_config c1 True of
           (fs2, c2, r2) \<Rightarrow> (r2, writes (requests (service c2)))))
   = (Inr False, [], Inr True, [UpdateCell ''S'' (range_ref ''Sheet1'' ''B2'') 120])"
proof -
  let ?c = "build_google_client ex_sheet"
  let ?fs = "ex_long_files ''run0.csv''"
  let ?st = "\<lparr>scenarios = [], processed_files = ex_ids\<rparr> :: AppState"
  let ?st1 = "\<lparr>scenarios = [], processed_files = tl ex_ids\<rparr> :: AppState"
  let ?fs1 = "?fs\<lparr>state_file := Some (save_state ?st1)\<rparr>"
  let ?run = "\<lparr>scenario = ''Close Range'', score = 120, source_file = ''run0.csv''\<rparr>"
  have l: "load_state ex_py_float ex_py_repr (state_file ?fs) = Inr ?st"
    by (rule ex_long_files_load)
  have p: "fst ` set (stats_files ?fs) \<subseteq> set (processed_files ?st)"
    using run0_listed by (simp add: ex_long_files_def)
  have p1: "process_once ex_py_float ex_py_repr ?fs ex_config ?c True = (?fs1, ?c, Inr False)"
    using process_once_all_processed[OF l p, of ex_config ?c] by (simp add: ex_ids_last500)
  have rq: "requests (service ?c) = []" by (simp add: build_google_client_def ex_sheet_def)
  have l1: "load_state ex_py_float ex_py_repr (state_file ?fs1) = Inr ?st1"
  proof -
    have "last500 (tl ex_ids) = tl ex_ids"
      by (rule last500_short) (simp only: ex_ids_tl_length)
    with load_state_save_state[of ?st1 ex_py_float ex_py_repr] show ?thesis by simp
  qed
  have ps: "parse_stats_file ex_py_float ''run0.csv''
              (Opened [[''Scenario:'', ''Close Range''], [''Score:'', ''120'']] EndOfFile)
            = Inr ?run" by code_simp
  have cr: "collect_runs ex_py_float (stats_files ?fs) (tl ex_ids) True
              = Inr ([?run], tl ex_ids @ [''run0.csv''])"
    using run0_cut by (simp add: collect_runs_def ex_long_files_def ps Let_def del: parse_rows.simps)
  obtain c2 r where pr: "process_runs ex_py_float ex_config [?run] ?c ?st1 False = (c2, r)"
    by (cases "process_runs ex_py_float ex_config [?run] ?c ?st1 False") auto
  from ex_first_run_writes[of "tl ex_ids"] pr
  have w: "writes (requests (service c2)) = [UpdateCell ''S'' (range_ref ''Sheet1'' ''B2'') 120]"
    and u: "(case r of Inl e \<Rightarrow> None | Inr (st', u) \<Rightarrow> Some u) = Some True" by simp_all
  from u obtain st' where r: "r = Inr (st', True)"
    by (cases r) (auto split: prod.splits)
  have p2: "process_once ex_py_float ex_py_repr ?fs1 ex_config ?c True
              = (?fs1\<lparr>state_file := Some (save_state
                   (st'\<lparr>processed_files := last500 (tl ex_ids @ [''run0.csv''])\<rparr>))\<rparr>,
                 c2, Inr True)"
    unfolding process_once_def l1 by (simp add: cr pr r del: process_runs.simps)
  show ?thesis
    using l run0_listed by (simp add: p1 p2 rq w)
qed

end
